(* ===== verification/Nats_Prelude.thy ===== *)
theory Nats_Prelude
  imports Main "HOL-Library.Word"
begin

text \<open>
  Shared vocabulary of the development: bytes and machine integers, the outcome type of
  code that may panic, the collections of facts the component theories feed, and the
  generic list lemmas behind the splitting of buffers.

  A byte (\<open>u8\<close>) is an Isabelle \<open>char\<close>, which has exactly 256 values, so that the protocol's
  words can be written as string literals; a buffer is a list of bytes. A Rust \<open>String\<close> is
  the list of its UTF-8 bytes. \<open>usize\<close> and \<open>u64\<close> are 64-bit words.
\<close>

type_synonym u8 = char
type_synonym buf = "u8 list"
type_synonym rstring = string
type_synonym usize = "64 word"
type_synonym u64 = "64 word"
type_synonym u32 = "32 word"

text \<open>The numeric value of a byte.\<close>

definition byte_val :: "u8 \<Rightarrow> nat" where
  "byte_val c = of_char c"

text \<open>
  The outcome of a Rust expression that may panic: an explicit \<open>unwrap\<close>, a slice index out of
  range, or a documented panic of a callee.
\<close>

datatype 'a run = Value 'a | Panic

fun run_bind :: "'a run \<Rightarrow> ('a \<Rightarrow> 'b run) \<Rightarrow> 'b run" where
  "run_bind (Value x) f = f x"
| "run_bind Panic f = Panic"

lemma run_bind_eq_Value [simp]:
  "run_bind m f = Value y \<longleftrightarrow> (\<exists>x. m = Value x \<and> f x = Value y)"
  by (cases m) auto

lemma run_bind_eq_Panic:
  "run_bind m f = Panic \<longleftrightarrow> m = Panic \<or> (\<exists>x. m = Value x \<and> f x = Panic)"
  by (cases m) auto

lemma run_bind_Panic_right [simp]: "run_bind m (\<lambda>_. Panic) = Panic"
  by (cases m) simp_all

text \<open>\<open>&b[lo..hi]\<close>: a range slice, which panics when it is not inside the buffer.\<close>

definition slice_range :: "buf \<Rightarrow> nat \<Rightarrow> nat \<Rightarrow> buf run" where
  "slice_range b lo hi =
     (if lo \<le> hi \<and> hi \<le> length b then Value (take (hi - lo) (drop lo b)) else Panic)"

lemma slice_range_Value:
  "slice_range b lo hi = Value s \<longleftrightarrow> lo \<le> hi \<and> hi \<le> length b \<and> s = take (hi - lo) (drop lo b)"
  by (auto simp: slice_range_def)

lemma slice_range_append:
  "slice_range b lo hi = Value s \<Longrightarrow> slice_range (b @ more) lo hi = Value s"
  by (auto simp: slice_range_Value)

lemma slice_range_mid [simp]:
  "slice_range (a @ b @ c) (length a) (length a + length b) = Value b"
  by (simp add: slice_range_def)

subsection \<open>Collections\<close>

named_theorems codec_eval \<open>definitions to unfold when a closed codec term is evaluated\<close>
named_theorems utf8 \<open>byte strings that are valid UTF-8\<close>

subsection \<open>Occurrences of a pattern\<close>

definition occurs_at :: "buf \<Rightarrow> buf \<Rightarrow> nat \<Rightarrow> bool" where
  "occurs_at hay needle i \<longleftrightarrow> take (length needle) (drop i hay) = needle"

lemma occurs_at_Cons_Suc [simp]: "occurs_at (x # xs) nd (Suc i) = occurs_at xs nd i"
  by (simp add: occurs_at_def)

lemma occurs_at_append_shift [simp]: "occurs_at (a @ xs) nd (length a + i) = occurs_at xs nd i"
  by (simp add: occurs_at_def)

lemma occurs_at_bound: "occurs_at hay nd i \<Longrightarrow> i + length nd \<le> length hay \<or> nd = []"
proof -
  assume "occurs_at hay nd i"
  then have "length (take (length nd) (drop i hay)) = length nd" by (simp add: occurs_at_def)
  then show ?thesis by (cases nd) auto
qed

lemma occurs_at_append: "nd \<noteq> [] \<Longrightarrow> occurs_at hay nd i \<Longrightarrow> occurs_at (hay @ more) nd i"
  using occurs_at_bound [of hay nd i] by (simp add: occurs_at_def)

lemma occurs_at_appendD:
  "occurs_at (hay @ more) nd i \<Longrightarrow> i + length nd \<le> length hay \<Longrightarrow> occurs_at hay nd i"
  by (simp add: occurs_at_def)

subsection \<open>Filtering and searching an index range\<close>

lemma upt_0_Suc: "[0..<Suc n] = 0 # map Suc [0..<n]"
  by (simp add: upt_conv_Cons map_Suc_upt del: upt_Suc)

lemma filter_upt_Suc:
  "filter P [0..<Suc n] = (if P 0 then [0] else []) @ map Suc (filter (\<lambda>i. P (Suc i)) [0..<n])"
  by (simp add: upt_0_Suc filter_map o_def del: upt_Suc)

lemma filter_upt_add:
  "filter P [0..<m + n] = filter P [0..<m] @ map ((+) m) (filter (\<lambda>i. P (m + i)) [0..<n])"
proof -
  have "(+) m = (\<lambda>i. i + m)" by (simp add: fun_eq_iff)
  moreover have "[0..<m + n] = [0..<m] @ [m..<m + n]"
    using upt_add_eq_append [of 0 m n] by simp
  moreover have "map (\<lambda>i. i + m) [0..<n] = [m..<m + n]"
    using map_add_upt [of m n] by (simp add: add.commute)
  ultimately have "[0..<m + n] = [0..<m] @ map ((+) m) [0..<n]" by simp
  then show ?thesis by (simp only: filter_append filter_map o_def)
qed

lemma find_upt_Some_iff:
  "List.find P [0..<n] = Some i \<longleftrightarrow> i < n \<and> P i \<and> (\<forall>j<i. \<not> P j)"
  by (auto simp: find_Some_iff)

end
