(* ===== verification/Rust_Std.thy ===== *)
theory Rust_Std
  imports Nats_Prelude
begin

text \<open>
  The parts of Rust's standard library the program calls, modelled on byte lists:
  \<open>str::from_utf8\<close>, \<open>str::parse\<close> for \<open>usize\<close> and \<open>NonZeroUsize\<close>, the decimal \<open>Display\<close> of
  integers, \<open>eq_ignore_ascii_case\<close>, \<open>strip_prefix\<close> and \<open>strip_suffix\<close>, and
  \<open>Instant\<close> / \<open>Duration\<close> arithmetic. The lemmas are the round trip of parse and
  display, and the closure of valid UTF-8 under what the codec does to strings.
\<close>

subsection \<open>UTF-8 validation\<close>

definition is_cont :: "u8 \<Rightarrow> bool" where
  "is_cont c \<longleftrightarrow> 0x80 \<le> byte_val c \<and> byte_val c \<le> 0xBF"

definition utf8_second3 :: "u8 \<Rightarrow> u8 \<Rightarrow> bool" where
  "utf8_second3 a b =
     (if byte_val a = 0xE0 then 0xA0 \<le> byte_val b \<and> byte_val b \<le> 0xBF
      else if byte_val a = 0xED then 0x80 \<le> byte_val b \<and> byte_val b \<le> 0x9F
      else is_cont b)"

definition utf8_second4 :: "u8 \<Rightarrow> u8 \<Rightarrow> bool" where
  "utf8_second4 a b =
     (if byte_val a = 0xF0 then 0x90 \<le> byte_val b \<and> byte_val b \<le> 0xBF
      else if byte_val a = 0xF4 then 0x80 \<le> byte_val b \<and> byte_val b \<le> 0x8F
      else is_cont b)"

text \<open>The length of the sequence a first byte announces, 0 for a byte that begins none.\<close>

definition utf8_width :: "u8 \<Rightarrow> nat" where
  "utf8_width a =
     (if byte_val a < 0x80 then 1
      else if 0xC2 \<le> byte_val a \<and> byte_val a \<le> 0xDF then 2
      else if 0xE0 \<le> byte_val a \<and> byte_val a \<le> 0xEF then 3
      else if 0xF0 \<le> byte_val a \<and> byte_val a \<le> 0xF4 then 4
      else 0)"

fun utf8_tail_ok :: "u8 \<Rightarrow> buf \<Rightarrow> bool" where
  "utf8_tail_ok a [] = True"
| "utf8_tail_ok a [b] = is_cont b"
| "utf8_tail_ok a [b, c] = (utf8_second3 a b \<and> is_cont c)"
| "utf8_tail_ok a [b, c, d] = (utf8_second4 a b \<and> is_cont c \<and> is_cont d)"
| "utf8_tail_ok a _ = False"

text \<open>One scalar value off the front; \<open>None\<close> when the bytes do not begin with one.\<close>

fun utf8_next :: "buf \<Rightarrow> buf option" where
  "utf8_next [] = None"
| "utf8_next (a # r) =
     (let n = utf8_width a in
      if 0 < n \<and> n \<le> Suc (length r) \<and> utf8_tail_ok a (take (n - 1) r)
      then Some (drop (n - 1) r) else None)"

lemma utf8_next_shorter: "utf8_next s = Some r \<Longrightarrow> length r < length s"
  by (cases s) (auto simp: Let_def split: if_splits)

lemma utf8_next_append: "utf8_next s = Some r \<Longrightarrow> utf8_next (s @ t) = Some (r @ t)"
  by (cases s) (auto simp: Let_def split: if_splits)

lemma utf8_next_ascii: "byte_val a < 0x80 \<Longrightarrow> utf8_next (a # r) = Some r"
  by (simp add: utf8_width_def Let_def)

declare utf8_next.simps [simp del]

function utf8_valid :: "buf \<Rightarrow> bool" where
  "utf8_valid s =
     (s = [] \<or> (case utf8_next s of None \<Rightarrow> False | Some r \<Rightarrow> utf8_valid r))"
  by pat_completeness auto
termination
  by (relation "measure length") (auto dest: utf8_next_shorter)

declare utf8_valid.simps [simp del]

lemma utf8_valid_Nil [simp]: "utf8_valid []"
  by (simp add: utf8_valid.simps)

lemma utf8_valid_step: "s \<noteq> [] \<Longrightarrow> utf8_next s = Some r \<Longrightarrow> utf8_valid s = utf8_valid r"
  by (simp add: utf8_valid.simps [of s])

lemma utf8_valid_ascii_Cons [simp]: "byte_val a < 0x80 \<Longrightarrow> utf8_valid (a # r) = utf8_valid r"
  by (rule utf8_valid_step) (simp_all add: utf8_next_ascii)

definition from_utf8 :: "buf \<Rightarrow> rstring option" where
  "from_utf8 b = (if utf8_valid b then Some b else None)"

lemma from_utf8_Some [simp]: "from_utf8 b = Some s \<longleftrightarrow> utf8_valid b \<and> s = b"
  by (auto simp: from_utf8_def)

lemma from_utf8_None [simp]: "from_utf8 b = None \<longleftrightarrow> \<not> utf8_valid b"
  by (auto simp: from_utf8_def)

lemma from_utf8_valid: "utf8_valid b \<Longrightarrow> from_utf8 b = Some b"
  by (simp add: from_utf8_def)

lemma utf8_valid_ascii [utf8]: "\<forall>c \<in> set b. byte_val c < 0x80 \<Longrightarrow> utf8_valid b"
  by (induction b) auto

lemma utf8_valid_append [utf8]: "utf8_valid a \<Longrightarrow> utf8_valid (a @ b) = utf8_valid b"
proof (induction a rule: utf8_valid.induct)
  case (1 s)
  show ?case
  proof (cases "s = []")
    case False
    with "1.prems" obtain r where r: "utf8_next s = Some r" and v: "utf8_valid r"
      by (auto simp: utf8_valid.simps [of s] split: option.splits)
    have "utf8_valid (s @ b) = utf8_valid (r @ b)"
      using False utf8_next_append [OF r] by (intro utf8_valid_step) auto
    then show ?thesis using "1.IH" [OF r v] by simp
  qed simp
qed

text \<open>\<open>Option<&[u8]>::map(from_utf8).transpose()\<close>: an absent field is no error.\<close>

definition from_utf8_opt :: "buf option \<Rightarrow> rstring option option" where
  "from_utf8_opt x =
     (case x of None \<Rightarrow> Some None
      | Some b \<Rightarrow> (case from_utf8 b of Some s \<Rightarrow> Some (Some s) | None \<Rightarrow> None))"

lemma from_utf8_opt_Some [simp]:
  "from_utf8_opt x = Some y \<longleftrightarrow> y = x \<and> (\<forall>b. x = Some b \<longrightarrow> utf8_valid b)"
  by (cases x) (auto simp: from_utf8_opt_def split: option.splits)

lemma from_utf8_opt_None [simp]:
  "from_utf8_opt x = None \<longleftrightarrow> (\<exists>b. x = Some b \<and> \<not> utf8_valid b)"
  by (cases x) (auto simp: from_utf8_opt_def split: option.splits)

subsection \<open>Decimal integers\<close>

definition is_digit :: "u8 \<Rightarrow> bool" where
  "is_digit c \<longleftrightarrow> 48 \<le> byte_val c \<and> byte_val c \<le> 57"

definition digit_val :: "u8 \<Rightarrow> nat" where
  "digit_val c = byte_val c - 48"

text \<open>
  The accumulation loop of \<open>from_str_radix\<close>: \<open>checked_mul\<close> and \<open>checked_add\<close> fail as soon
  as the value passes the largest \<open>usize\<close>.
\<close>

fun parse_digits :: "nat \<Rightarrow> buf \<Rightarrow> nat option" where
  "parse_digits acc [] = Some acc"
| "parse_digits acc (c # cs) =
     (if is_digit c \<and> acc * 10 + digit_val c < 2 ^ 64
      then parse_digits (acc * 10 + digit_val c) cs else None)"

text \<open>
  \<open>str::parse::<usize>\<close>: the empty string and a lone sign are errors, a leading plus sign is
  accepted, a minus sign is an invalid digit of an unsigned type.
\<close>

definition parse_usize :: "rstring \<Rightarrow> usize option" where
  "parse_usize s =
     (case s of [] \<Rightarrow> None
      | c # cs \<Rightarrow>
          (if cs = [] \<and> (c = CHR ''+'' \<or> c = CHR ''-'') then None
           else map_option of_nat (parse_digits 0 (if c = CHR ''+'' then cs else s))))"

definition digit_char :: "nat \<Rightarrow> u8" where
  "digit_char n = char_of (48 + n)"

fun show_nat :: "nat \<Rightarrow> rstring" where
  "show_nat n = (if n < 10 then [digit_char n] else show_nat (n div 10) @ [digit_char (n mod 10)])"

declare show_nat.simps [simp del]

definition show_usize :: "usize \<Rightarrow> rstring" where
  "show_usize w = show_nat (unat w)"

lemma byte_val_digit_char [simp]: "n < 10 \<Longrightarrow> byte_val (digit_char n) = 48 + n"
  by (simp add: byte_val_def digit_char_def)

lemma show_nat_digits: "c \<in> set (show_nat n) \<Longrightarrow> is_digit c"
proof (induction n rule: show_nat.induct)
  case (1 n)
  then show ?case
    by (subst (asm) (2) show_nat.simps) (auto simp: is_digit_def split: if_splits)
qed

lemma show_nat_not_Nil [simp]: "show_nat n \<noteq> []"
  by (subst show_nat.simps) simp

lemma parse_digits_append:
  "parse_digits acc (a @ b) =
     (case parse_digits acc a of None \<Rightarrow> None | Some v \<Rightarrow> parse_digits v b)"
  by (induction a arbitrary: acc) auto

lemma parse_digits_show: "n < 2 ^ 64 \<Longrightarrow> parse_digits 0 (show_nat n) = Some n"
proof (induction n rule: show_nat.induct)
  case (1 n)
  show ?case
  proof (cases "n < 10")
    case True
    then show ?thesis
      by (subst show_nat.simps) (simp add: is_digit_def digit_val_def)
  next
    case False
    with 1 have "parse_digits 0 (show_nat (n div 10)) = Some (n div 10)" by simp
    with False "1.prems" show ?thesis
      by (subst show_nat.simps) (simp add: parse_digits_append is_digit_def digit_val_def)
  qed
qed

lemma is_digit_not_sign: "is_digit c \<Longrightarrow> c \<noteq> CHR ''+'' \<and> c \<noteq> CHR ''-''"
  by (auto simp: is_digit_def byte_val_def)

text \<open>Parsing the display of a \<open>usize\<close> gives it back.\<close>

lemma parse_show_usize [simp]: "parse_usize (show_usize w) = Some w"
proof -
  have p: "parse_digits 0 (show_nat (unat w)) = Some (unat w)"
    using unsigned_less [of w] by (intro parse_digits_show) simp
  obtain c cs where s: "show_nat (unat w) = c # cs"
    using show_nat_not_Nil by (cases "show_nat (unat w)") blast+
  then have "is_digit c" using show_nat_digits [of c "unat w"] by simp
  then show ?thesis
    using p s by (auto simp: parse_usize_def show_usize_def dest: is_digit_not_sign)
qed

lemma show_usize_digits: "c \<in> set (show_usize w) \<Longrightarrow> is_digit c"
  by (simp add: show_usize_def show_nat_digits)

lemma utf8_valid_show_usize [simp]: "utf8_valid (show_usize w)"
  by (rule utf8_valid_ascii) (auto dest!: show_usize_digits simp: is_digit_def)

lemma parse_usize_bound: "parse_usize s = Some w \<Longrightarrow> s \<noteq> []"
  by (auto simp: parse_usize_def)

lemma show_usize_inj [simp]: "show_usize v = show_usize w \<longleftrightarrow> v = w"
  by (metis option.inject parse_show_usize)

subsection \<open>NonZeroUsize\<close>

typedef nonzero_usize = "{w :: usize. w \<noteq> 0}"
  morphisms nz_get Abs_nonzero
  by (rule exI [of _ 1]) simp

setup_lifting type_definition_nonzero_usize

text \<open>\<open>NonZeroUsize::new\<close>.\<close>

definition nz_new :: "usize \<Rightarrow> nonzero_usize option" where
  "nz_new w = (if w = 0 then None else Some (Abs_nonzero w))"

instantiation nonzero_usize :: linorder
begin

definition less_eq_nonzero_usize :: "nonzero_usize \<Rightarrow> nonzero_usize \<Rightarrow> bool" where
  "less_eq_nonzero_usize a b = (nz_get a \<le> nz_get b)"

definition less_nonzero_usize :: "nonzero_usize \<Rightarrow> nonzero_usize \<Rightarrow> bool" where
  "less_nonzero_usize a b = (nz_get a < nz_get b)"

instance
  by standard
    (auto simp: less_eq_nonzero_usize_def less_nonzero_usize_def
       simp flip: nz_get_inject)

end

lemma nz_get_nonzero [simp]: "nz_get w \<noteq> 0"
  using nz_get [of w] by simp

lemma nz_new_get [simp]: "nz_new (nz_get w) = Some w"
  by (simp add: nz_new_def nz_get_inverse)

text \<open>\<open>str::parse::<NonZeroUsize>\<close> refuses zero.\<close>

definition parse_nonzero :: "rstring \<Rightarrow> nonzero_usize option" where
  "parse_nonzero s = Option.bind (parse_usize s) nz_new"

lemma parse_show_nonzero [simp]: "parse_nonzero (show_usize (nz_get n)) = Some n"
  by (simp add: parse_nonzero_def)

subsection \<open>Byte slices\<close>

definition to_ascii_lowercase :: "u8 \<Rightarrow> u8" where
  "to_ascii_lowercase c =
     (if 65 \<le> byte_val c \<and> byte_val c \<le> 90 then char_of (byte_val c + 32) else c)"

lemma byte_val_lowercase:
  "byte_val (to_ascii_lowercase c) =
     (if 65 \<le> byte_val c \<and> byte_val c \<le> 90 then byte_val c + 32 else byte_val c)"
  by (simp add: to_ascii_lowercase_def) (simp add: byte_val_def)

lemma byte_val_inject [simp]: "byte_val c = byte_val c' \<longleftrightarrow> c = c'"
  by (simp add: byte_val_def)

text \<open>Only itself is lowered to a byte below the letters.\<close>

lemma lowercase_low:
  assumes "byte_val b < 65"
  shows "to_ascii_lowercase c = b \<longleftrightarrow> c = b"
proof -
  have "to_ascii_lowercase c = b \<longleftrightarrow> byte_val (to_ascii_lowercase c) = byte_val b" by simp
  also have "\<dots> \<longleftrightarrow> c = b" using assms by (auto simp only: byte_val_lowercase split: if_splits) auto
  finally show ?thesis .
qed

definition eq_ignore_ascii_case :: "buf \<Rightarrow> buf \<Rightarrow> bool" where
  "eq_ignore_ascii_case a b \<longleftrightarrow> map to_ascii_lowercase a = map to_ascii_lowercase b"

lemma eq_ignore_ascii_case_refl [simp]: "eq_ignore_ascii_case a a"
  by (simp add: eq_ignore_ascii_case_def)

text \<open>The comparison on numbers, which evaluates on closed strings.\<close>

definition lower_val :: "u8 \<Rightarrow> nat" where
  "lower_val c = (let n = byte_val c in if 65 \<le> n \<and> n \<le> 90 then n + 32 else n)"

lemma eq_ignore_ascii_case_eval:
  "eq_ignore_ascii_case a b \<longleftrightarrow> map lower_val a = map lower_val b"
proof -
  have l: "lower_val = byte_val \<circ> to_ascii_lowercase"
    by (simp add: fun_eq_iff lower_val_def byte_val_lowercase Let_def)
  have "inj byte_val" by (simp add: inj_def)
  then show ?thesis
    unfolding eq_ignore_ascii_case_def l by (simp only: map_map [symmetric] inj_map_eq_map)
qed

text \<open>\<open>strip_prefix(&b" "[..]).unwrap_or(v)\<close> and its suffix twin, for a one-byte pattern.\<close>

definition strip_prefix1 :: "u8 \<Rightarrow> buf \<Rightarrow> buf" where
  "strip_prefix1 c v = (case v of x # r \<Rightarrow> if x = c then r else v | [] \<Rightarrow> v)"

definition strip_suffix1 :: "u8 \<Rightarrow> buf \<Rightarrow> buf" where
  "strip_suffix1 c v = (if v \<noteq> [] \<and> last v = c then butlast v else v)"

lemma strip_prefix1_Cons [simp]: "strip_prefix1 c (c # v) = v"
  by (simp add: strip_prefix1_def)

lemma strip_suffix1_id [simp]: "v = [] \<or> last v \<noteq> c \<Longrightarrow> strip_suffix1 c v = v"
  by (auto simp: strip_suffix1_def)

subsection \<open>Time\<close>

text \<open>
  An \<open>Instant\<close> is a count of nanoseconds on the monotonic clock, a \<open>Duration\<close> a number of
  nanoseconds. \<open>duration_since\<close> saturates at zero when the argument is later; adding a
  duration panics when the sum is not an \<open>Instant\<close>, whose seconds are an \<open>i64\<close>.
\<close>

type_synonym instant = nat
type_synonym duration = nat

definition INSTANT_LIMIT :: nat where
  "INSTANT_LIMIT = 2 ^ 63 * 1000000000"

definition duration_since :: "instant \<Rightarrow> instant \<Rightarrow> duration" where
  "duration_since now earlier = now - earlier"

definition instant_add :: "instant \<Rightarrow> duration \<Rightarrow> instant run" where
  "instant_add t d = (if t + d < INSTANT_LIMIT then Value (t + d) else Panic)"

lemma instant_add_Value [simp]: "instant_add t d = Value u \<longleftrightarrow> u = t + d \<and> t + d < INSTANT_LIMIT"
  by (auto simp: instant_add_def)

end
