(* ===== verification/Nats_Types.thy ===== *)
theory Nats_Types
  imports Rust_Std
begin

text \<open>
  The data of \<open>nats_codec/src/lib.rs\<close>: the commands of both directions with the source's
  fields (each prefixed by its struct, since record selectors are global), the header map,
  and the two conversions into the \<open>Message\<close> a subscriber receives. A \<open>Bytes\<close> payload is its
  content; a \<open>HashMap\<close> is a partial function. The unit structs \<open>ServerCodec\<close> and
  \<open>ClientCodec\<close> carry no state and appear as the two decoders of theory \<open>Decoder\<close>.
\<close>

subsection \<open>Constants\<close>

definition BUFSIZE_LIMIT :: nat where
  "BUFSIZE_LIMIT = 65535"

definition CR :: u8 where
  "CR = CHR 0x0D"

definition LF :: u8 where
  "LF = CHR 0x0A"

definition CRLF :: buf where
  "CRLF = [CR, LF]"

abbreviation SP :: u8 where
  "SP \<equiv> CHR 0x20"

abbreviation COLON :: u8 where
  "COLON \<equiv> CHR '':''"

lemma length_CRLF [simp]: "length CRLF = 2"
  by (simp add: CRLF_def)

lemma CR_neq_LF [simp]: "CR \<noteq> LF" "LF \<noteq> CR"
  by (simp_all add: CR_def LF_def)

lemma CRLF_neq_Nil [simp]: "CRLF \<noteq> []"
  by (simp add: CRLF_def)

lemma CR_LF_byte_val [simp]: "byte_val CR = 13" "byte_val LF = 10"
  by (simp_all add: byte_val_def CR_def LF_def)

lemmas [codec_eval] = BUFSIZE_LIMIT_def CRLF_def CR_def LF_def

subsection \<open>Server commands\<close>

record info =
  info_server_id :: rstring
  info_server_name :: rstring
  info_version :: rstring
  info_go :: rstring
  info_host :: rstring
  info_port :: u32
  info_headers :: bool
  info_max_payload :: usize
  info_proto :: "8 word"
  info_client_id :: "u64 option"
  info_auth_required :: "bool option"
  info_tls_required :: "bool option"
  info_tls_verify :: "bool option"
  info_tls_available :: "bool option"
  info_connect_urls :: "rstring list option"
  info_ws_connect_urls :: "rstring list option"
  info_ldm :: "bool option"
  info_git_commit :: "rstring option"
  info_jetstream :: "bool option"
  info_ip :: "rstring option"
  info_client_ip :: "rstring option"
  info_nonce :: "rstring option"
  info_cluster :: "rstring option"
  info_domain :: "rstring option"

record msg =
  msg_subject :: rstring
  msg_sid :: rstring
  msg_reply_to :: "rstring option"
  msg_bytes :: usize
  msg_payload :: buf

type_synonym header_name = rstring
type_synonym header_value = rstring
type_synonym header_map = "header_name \<rightharpoonup> header_value list"

record hmsg =
  hmsg_subject :: rstring
  hmsg_sid :: rstring
  hmsg_reply_to :: "rstring option"
  hmsg_header_bytes :: usize
  hmsg_total_bytes :: usize
  hmsg_headers :: header_map
  hmsg_payload :: buf

datatype server_command =
    S_Info info
  | S_Msg msg
  | S_HMsg hmsg
  | S_Ping
  | S_Pong
  | S_Ok
  | S_Err rstring

record message =
  message_subject :: rstring
  message_sid :: rstring
  message_reply_to :: "rstring option"
  message_headers :: header_map
  message_payload :: buf

text \<open>\<open>impl From<HMsg> for Message\<close> and \<open>impl From<Msg> for Message\<close>.\<close>

definition message_of_hmsg :: "hmsg \<Rightarrow> message" where
  "message_of_hmsg v =
     \<lparr>message_subject = hmsg_subject v, message_sid = hmsg_sid v,
      message_reply_to = hmsg_reply_to v, message_headers = hmsg_headers v,
      message_payload = hmsg_payload v\<rparr>"

definition message_of_msg :: "msg \<Rightarrow> message" where
  "message_of_msg v =
     \<lparr>message_subject = msg_subject v, message_sid = msg_sid v,
      message_reply_to = msg_reply_to v, message_headers = Map.empty,
      message_payload = msg_payload v\<rparr>"

subsection \<open>Client commands\<close>

record connect =
  con_verbose :: bool
  con_pedantic :: bool
  con_tls_required :: bool
  con_auth_token :: "rstring option"
  con_user :: "rstring option"
  con_pass :: "rstring option"
  con_name :: "rstring option"
  con_lang :: rstring
  con_version :: rstring
  con_protocol :: "8 word option"
  con_echo :: "bool option"
  con_sig :: "rstring option"
  con_jwt :: "rstring option"
  con_no_responders :: "bool option"
  con_headers :: "bool option"
  con_nkey :: "rstring option"

record publish =
  pub_subject :: rstring
  pub_reply_to :: "rstring option"
  pub_bytes :: usize
  pub_payload :: buf

record hpublish =
  hpub_subject :: rstring
  hpub_reply_to :: "rstring option"
  hpub_header_bytes :: usize
  hpub_total_bytes :: usize
  hpub_headers :: header_map
  hpub_payload :: buf

record subscribe =
  sub_subject :: rstring
  sub_queue_group :: "rstring option"
  sub_sid :: rstring

record unsubscribe =
  unsub_sid :: rstring
  unsub_max_msgs :: "nonzero_usize option"

datatype client_command =
    C_Connect connect
  | C_Publish publish
  | C_HPublish hpublish
  | C_Subscribe subscribe
  | C_Unsubscribe unsubscribe
  | C_Ping
  | C_Pong

subsection \<open>Errors\<close>

text \<open>
  The error enums of \<open>decoding/mod.rs\<close>, \<open>decoding/header.rs\<close> and \<open>encoder.rs\<close>. An
  \<open>io::Error\<close> is its message.
\<close>

type_synonym io_error = string

datatype server_decode_error =
    SE_ExceedsSoftLength | SE_BadInfo | SE_BadMsg | SE_BadHMsg | SE_BadPing | SE_BadPong
  | SE_BadOk | SE_BadErr | SE_BadHeaders | SE_UnknownCommand | SE_IoError io_error

datatype client_decode_error =
    CE_ExceedsSoftLength | CE_BadConnect | CE_BadSub | CE_BadUnsub | CE_BadPub | CE_BadHPub
  | CE_BadHeaders | CE_UnknownCommand | CE_IoError io_error

datatype header_decode_error =
  BadLength | MissingNatsVersion | BadHeaderName | BadHeaderValue | NoColon

datatype client_encode_error = EE_IoError io_error

text \<open>The result of a command's body decoder.\<close>

datatype ('t, 'e) command_decoder_result =
    Advance 't nat
  | FatalError 'e
  | FrameTooShort "nat option"

subsection \<open>Strings of a command\<close>

text \<open>
  Every \<open>String\<close> of a Rust value is valid UTF-8; the predicates below say so of a command's
  model, whose strings are bare byte lists: all \<open>String\<close> fields of its struct, the optional and
  the listed ones included.
\<close>

fun utf8_opt :: "rstring option \<Rightarrow> bool" where
  "utf8_opt None = True"
| "utf8_opt (Some s) = utf8_valid s"

definition utf8_headers :: "header_map \<Rightarrow> bool" where
  "utf8_headers h \<longleftrightarrow> (\<forall>k vs. h k = Some vs \<longrightarrow> utf8_valid k \<and> (\<forall>v \<in> set vs. utf8_valid v))"

definition utf8_all :: "rstring list option \<Rightarrow> bool" where
  "utf8_all x \<longleftrightarrow> (case x of None \<Rightarrow> True | Some ss \<Rightarrow> list_all utf8_valid ss)"

definition utf8_info :: "info \<Rightarrow> bool" where
  "utf8_info i \<longleftrightarrow>
     list_all utf8_valid [info_server_id i, info_server_name i, info_version i, info_go i, info_host i] \<and>
     utf8_all (info_connect_urls i) \<and> utf8_all (info_ws_connect_urls i) \<and>
     list_all utf8_opt [info_git_commit i, info_ip i, info_client_ip i, info_nonce i, info_cluster i,
       info_domain i]"

definition utf8_connect :: "connect \<Rightarrow> bool" where
  "utf8_connect c \<longleftrightarrow>
     list_all utf8_valid [con_lang c, con_version c] \<and>
     list_all utf8_opt [con_auth_token c, con_user c, con_pass c, con_name c, con_sig c, con_jwt c, con_nkey c]"

fun utf8_server :: "server_command \<Rightarrow> bool" where
  "utf8_server (S_Msg m) =
     (utf8_valid (msg_subject m) \<and> utf8_valid (msg_sid m) \<and> utf8_opt (msg_reply_to m))"
| "utf8_server (S_HMsg m) =
     (utf8_valid (hmsg_subject m) \<and> utf8_valid (hmsg_sid m) \<and> utf8_opt (hmsg_reply_to m) \<and>
      utf8_headers (hmsg_headers m))"
| "utf8_server (S_Info i) = utf8_info i"
| "utf8_server (S_Err e) = utf8_valid e"
| "utf8_server S_Ping = True"
| "utf8_server S_Pong = True"
| "utf8_server S_Ok = True"

fun utf8_client :: "client_command \<Rightarrow> bool" where
  "utf8_client (C_Publish p) = (utf8_valid (pub_subject p) \<and> utf8_opt (pub_reply_to p))"
| "utf8_client (C_HPublish p) =
     (utf8_valid (hpub_subject p) \<and> utf8_opt (hpub_reply_to p) \<and> utf8_headers (hpub_headers p))"
| "utf8_client (C_Subscribe s) =
     (utf8_valid (sub_subject s) \<and> utf8_opt (sub_queue_group s) \<and> utf8_valid (sub_sid s))"
| "utf8_client (C_Connect c) = utf8_connect c"
| "utf8_client (C_Unsubscribe u) = utf8_valid (unsub_sid u)"
| "utf8_client C_Ping = True"
| "utf8_client C_Pong = True"

lemma utf8_opt_iff: "utf8_opt x \<longleftrightarrow> (\<forall>s. x = Some s \<longrightarrow> utf8_valid s)"
  by (cases x) auto

end
