(* ===== verification/Sans_Io_State.thy ===== *)
theory Sans_Io_State
  imports Nats_Types
begin

text \<open>
  \<open>nats_sans_io/src/state.rs\<close> and \<open>subscription.rs\<close>: the state of a connection and its two
  \<open>Step\<close> implementations, for commands of the server and for commands of the user. The
  channels of \<open>tokio::sync\<close> are parameters: a record of the four operations the code calls,
  each acting on a world that stands for the state of all channels. A step takes the state
  and the world, and returns the state after it (\<open>&mut self\<close>), the state to change to
  (\<open>Option<ConnState>\<close>) and the world, or panics. Log output is left out.
\<close>

subsection \<open>Data\<close>

record subscription_options =
  opt_max_msgs :: "nonzero_usize option"
  opt_queue_group :: "rstring option"

record 'rx subscribe_response =
  resp_sid :: rstring
  resp_max_msgs :: "nonzero_usize option"
  resp_msg_chan :: 'rx

text \<open>\<open>ConnectionCommand\<close> of \<open>lib.rs\<close>; \<open>'one\<close> is \<open>oneshot::Sender<SubscribeResponse>\<close>.\<close>

datatype 'one connection_command =
    Subscribe (cmd_subject: rstring) (cmd_options: subscription_options) (cmd_sender: 'one)
  | Unsubscribe rstring "nonzero_usize option"
  | Publish rstring buf

record 'one awaiting_info =
  preliminary :: "('one connection_command \<times> instant) list"

record keep_alive_state =
  last_ping_sent_at :: "instant option"
  last_ping_received_at :: "instant option"
  last_pong_received_at :: "instant option"

text \<open>\<open>'tx\<close> is \<open>mpsc::Sender<Message>\<close>; a \<open>VecDeque\<close> is the list from front to back.\<close>

record 'tx info_received =
  buffered_transmits :: "client_command list"
  keep_alive :: keep_alive_state
  sid_generator :: u64
  sid2subscriber :: "rstring \<rightharpoonup> 'tx"

datatype ('one, 'tx) conn_state =
    AwaitingInfo "'one awaiting_info"
  | InfoReceived "'tx info_received"
  | NotInfoReceived
  | ConnectionLost

text \<open>
  The channel operations: \<open>mpsc::channel(n)\<close>, whether \<open>Sender::try_send\<close>,
  \<open>Sender::blocking_send\<close> and \<open>oneshot::Sender::send\<close> return \<open>Ok\<close>, and what they do to the
  channels. \<open>blocking_send\<close> is documented to panic in an asynchronous execution context.
\<close>

record ('w, 'tx, 'rx, 'one) tokio_sync =
  mpsc_channel :: "nat \<Rightarrow> 'w \<Rightarrow> ('tx \<times> 'rx) \<times> 'w"
  try_send :: "'tx \<Rightarrow> message \<Rightarrow> 'w \<Rightarrow> bool \<times> 'w"
  blocking_send :: "'tx \<Rightarrow> message \<Rightarrow> 'w \<Rightarrow> (bool \<times> 'w) run"
  oneshot_send :: "'one \<Rightarrow> 'rx subscribe_response \<Rightarrow> 'w \<Rightarrow> bool \<times> 'w"

text \<open>\<open>Result::unwrap\<close> on the outcome of a send.\<close>

fun unwrap_ok :: "bool \<times> 'w \<Rightarrow> 'w run" where
  "unwrap_ok (True, w) = Value w"
| "unwrap_ok (False, w) = Panic"

text \<open>\<open>u64::to_string\<close>.\<close>

definition u64_to_string :: "u64 \<Rightarrow> rstring" where
  "u64_to_string n = show_nat (unat n)"

subsection \<open>Commands of the user\<close>

type_synonym ('one, 'tx, 'w) step_result =
  "(('one, 'tx) conn_state \<times> ('one, 'tx) conn_state option \<times> 'w) run"

fun step_client ::
  "('w, 'tx, 'rx, 'one) tokio_sync \<Rightarrow> ('one, 'tx) conn_state \<Rightarrow> 'one connection_command \<Rightarrow>
   instant \<Rightarrow> 'w \<Rightarrow> ('one, 'tx, 'w) step_result" where
  "step_client io (InfoReceived r) (Subscribe subject options sender) now w =
     (let sid = sid_generator r;
          r1 = r\<lparr>sid_generator := sid + 1\<rparr>;
          ((sub_send, sub_recv), w1) = mpsc_channel io 1024 w;
          r2 = r1\<lparr>sid2subscriber := (sid2subscriber r1)(u64_to_string sid \<mapsto> sub_send)\<rparr>
      in run_bind (unwrap_ok (oneshot_send io sender
             \<lparr>resp_sid = u64_to_string sid, resp_max_msgs = opt_max_msgs options,
              resp_msg_chan = sub_recv\<rparr> w1))
           (\<lambda>w2.
             let r3 = r2\<lparr>buffered_transmits := buffered_transmits r2 @
                   [C_Subscribe \<lparr>sub_subject = subject, sub_queue_group = opt_queue_group options,
                                 sub_sid = u64_to_string sid\<rparr>]\<rparr>;
                 r4 = (case opt_max_msgs options of
                    None \<Rightarrow> r3
                  | Some max_msgs \<Rightarrow> r3\<lparr>buffered_transmits := buffered_transmits r3 @
                      [C_Unsubscribe \<lparr>unsub_sid = u64_to_string sid,
                                      unsub_max_msgs = Some max_msgs\<rparr>]\<rparr>)
             in Value (InfoReceived r4, None, w2)))"
| "step_client io (InfoReceived r) (Unsubscribe sid max_msgs) now w =
     Value (InfoReceived (r\<lparr>sid2subscriber := (sid2subscriber r)(sid := None),
        buffered_transmits := buffered_transmits r @
          [C_Unsubscribe \<lparr>unsub_sid = sid, unsub_max_msgs = max_msgs\<rparr>]\<rparr>), None, w)"
| "step_client io (InfoReceived r) (Publish subject payload) now w =
     Value (InfoReceived (r\<lparr>buffered_transmits := buffered_transmits r @
        [C_Publish \<lparr>pub_subject = subject, pub_reply_to = None,
                    pub_bytes = of_nat (length payload), pub_payload = payload\<rparr>]\<rparr>), None, w)"
| "step_client io (AwaitingInfo a) command now w =
     Value (AwaitingInfo (a\<lparr>preliminary := preliminary a @ [(command, now)]\<rparr>), None, w)"
| "step_client io NotInfoReceived command now w = Value (NotInfoReceived, None, w)"
| "step_client io ConnectionLost command now w = Value (ConnectionLost, None, w)"

subsection \<open>Commands of the server\<close>

text \<open>The \<open>Connect\<close> the client answers the first \<open>INFO\<close> with; nothing in it depends on \<open>INFO\<close>.\<close>

definition hello_connect :: connect where
  "hello_connect =
     \<lparr>con_verbose = True, con_pedantic = True, con_tls_required = False,
      con_auth_token = None, con_user = None, con_pass = None, con_name = None,
      con_lang = ''Rust'', con_version = ''1.0'', con_protocol = None, con_echo = None,
      con_sig = None, con_jwt = None, con_no_responders = None, con_headers = Some True,
      con_nkey = None\<rparr>"

definition established :: "'tx info_received" where
  "established =
     \<lparr>buffered_transmits = [C_Connect hello_connect],
      keep_alive = \<lparr>last_ping_sent_at = None, last_ping_received_at = None,
                    last_pong_received_at = None\<rparr>,
      sid_generator = 1, sid2subscriber = Map.empty\<rparr>"

text \<open>The \<open>fold\<close> over the backlog.\<close>

fun replay ::
  "('w, 'tx, 'rx, 'one) tokio_sync \<Rightarrow> ('one connection_command \<times> instant) list \<Rightarrow> instant \<Rightarrow>
   ('one, 'tx) conn_state \<Rightarrow> 'w \<Rightarrow> (('one, 'tx) conn_state \<times> 'w) run" where
  "replay io [] now s w = Value (s, w)"
| "replay io ((backlog, when) # rest) now s w =
     run_bind (step_client io s backlog now w)
       (\<lambda>(s', new, w'). replay io rest now (case new of None \<Rightarrow> s' | Some n \<Rightarrow> n) w')"

fun step_server ::
  "('w, 'tx, 'rx, 'one) tokio_sync \<Rightarrow> ('one, 'tx) conn_state \<Rightarrow> server_command \<Rightarrow>
   instant \<Rightarrow> 'w \<Rightarrow> ('one, 'tx, 'w) step_result" where
  "step_server io (AwaitingInfo a) (S_Info i) now w =
     run_bind (replay io (preliminary a) now (InfoReceived established) w)
       (\<lambda>(replayed, w'). Value (AwaitingInfo (a\<lparr>preliminary := []\<rparr>), Some replayed, w'))"
| "step_server io (AwaitingInfo a) otherwise now w =
     Value (AwaitingInfo a, Some NotInfoReceived, w)"
| "step_server io (InfoReceived r) S_Ok now w = Value (InfoReceived r, None, w)"
| "step_server io (InfoReceived r) (S_Err e) now w = Value (InfoReceived r, None, w)"
| "step_server io (InfoReceived r) (S_Info i) now w = Value (InfoReceived r, None, w)"
| "step_server io (InfoReceived r) (S_Msg m) now w =
     (case sid2subscriber r (msg_sid m) of
        None \<Rightarrow> Value (InfoReceived r, None, w)
      | Some subscriber \<Rightarrow>
          run_bind (unwrap_ok (try_send io subscriber (message_of_msg m) w))
            (\<lambda>w'. Value (InfoReceived r, None, w')))"
| "step_server io (InfoReceived r) (S_HMsg m) now w =
     (case sid2subscriber r (hmsg_sid m) of
        None \<Rightarrow> Value (InfoReceived r, None, w)
      | Some subscriber \<Rightarrow>
          run_bind (blocking_send io subscriber (message_of_hmsg m) w)
            (\<lambda>sent. run_bind (unwrap_ok sent) (\<lambda>w'. Value (InfoReceived r, None, w'))))"
| "step_server io (InfoReceived r) S_Ping now w =
     Value (InfoReceived (r\<lparr>keep_alive := (keep_alive r)\<lparr>last_ping_received_at := Some now\<rparr>\<rparr>), None, w)"
| "step_server io (InfoReceived r) S_Pong now w =
     Value (InfoReceived (r\<lparr>keep_alive := (keep_alive r)\<lparr>last_pong_received_at := Some now\<rparr>\<rparr>), None, w)"
| "step_server io NotInfoReceived otherwise now w = Value (NotInfoReceived, None, w)"
| "step_server io ConnectionLost otherwise now w = Value (ConnectionLost, None, w)"

text \<open>The step a connection takes: the change is stored when there is one.\<close>

definition change_state ::
  "('one, 'tx, 'w) step_result \<Rightarrow> (('one, 'tx) conn_state \<times> 'w) run" where
  "change_state res =
     run_bind res (\<lambda>(s, new, w). Value ((case new of None \<Rightarrow> s | Some change \<Rightarrow> change), w))"

subsection \<open>What a command does to an established connection\<close>

text \<open>
  The specification of a step of the user: what it queues for the server, given the next
  subscription id, and the next id after it.
\<close>

fun transmits :: "u64 \<Rightarrow> 'one connection_command \<Rightarrow> client_command list" where
  "transmits n (Subscribe subject options _) =
     C_Subscribe \<lparr>sub_subject = subject, sub_queue_group = opt_queue_group options,
                  sub_sid = u64_to_string n\<rparr> #
     (case opt_max_msgs options of None \<Rightarrow> []
      | Some m \<Rightarrow> [C_Unsubscribe \<lparr>unsub_sid = u64_to_string n, unsub_max_msgs = Some m\<rparr>])"
| "transmits n (Unsubscribe sid max_msgs) =
     [C_Unsubscribe \<lparr>unsub_sid = sid, unsub_max_msgs = max_msgs\<rparr>]"
| "transmits n (Publish subject payload) =
     [C_Publish \<lparr>pub_subject = subject, pub_reply_to = None,
                 pub_bytes = of_nat (length payload), pub_payload = payload\<rparr>]"

fun next_sid :: "u64 \<Rightarrow> 'one connection_command \<Rightarrow> u64" where
  "next_sid n (Subscribe _ _ _) = n + 1"
| "next_sid n _ = n"

fun transmits_all :: "u64 \<Rightarrow> 'one connection_command list \<Rightarrow> client_command list" where
  "transmits_all n [] = []"
| "transmits_all n (c # cs) = transmits n c @ transmits_all (next_sid n c) cs"

fun next_sids :: "u64 \<Rightarrow> 'one connection_command list \<Rightarrow> u64" where
  "next_sids n [] = n"
| "next_sids n (c # cs) = next_sids (next_sid n c) cs"

lemma unwrap_ok_Value [simp]: "unwrap_ok p = Value w \<longleftrightarrow> p = (True, w)"
  by (cases p rule: unwrap_ok.cases) auto

lemma unwrap_ok_Panic [simp]: "unwrap_ok p = Panic \<longleftrightarrow> \<not> fst p"
  by (cases p rule: unwrap_ok.cases) auto

lemma step_client_keeps_state: "step_client io s c now w = Value (s', new, w') \<Longrightarrow> new = None"
  by (cases s; cases c) (auto split: prod.splits simp: Let_def)

text \<open>A step of the user on an established connection, in terms of its specification.\<close>

lemma step_client_established:
  assumes "step_client io (InfoReceived r) c now w = Value (s', new, w')"
  obtains r' where "s' = InfoReceived r'" "new = None"
    "buffered_transmits r' = buffered_transmits r @ transmits (sid_generator r) c"
    "keep_alive r' = keep_alive r" "sid_generator r' = next_sid (sid_generator r) c"
    "\<forall>k. sid2subscriber r' k \<noteq> sid2subscriber r k \<longrightarrow>
       (\<exists>subject options sender. c = Subscribe subject options sender \<and> k = u64_to_string (sid_generator r)) \<or>
       (\<exists>max_msgs. c = Unsubscribe k max_msgs \<and> sid2subscriber r' k = None)"
  using assms that
  by (cases c) (auto simp: Let_def split: prod.splits option.splits)

text \<open>The time of a command of the user matters only to its place in the backlog.\<close>

lemma step_client_time: "step_client io (InfoReceived r) c now w = step_client io (InfoReceived r) c now' w"
  by (cases c) simp_all

lemma replay_established:
  assumes "replay io cs now (InfoReceived r) w = Value (s, w')"
  obtains r' where "s = InfoReceived r'" "keep_alive r' = keep_alive r"
    "buffered_transmits r' = buffered_transmits r @ transmits_all (sid_generator r) (map fst cs)"
    "sid_generator r' = next_sids (sid_generator r) (map fst cs)"
  using assms
proof (induction cs arbitrary: r w thesis)
  case (Cons e cs)
  obtain c t where e: "e = (c, t)" by force
  from Cons.prems(2) obtain s1 new w1 where 1:
    "step_client io (InfoReceived r) c now w = Value (s1, new, w1)"
    "replay io cs now (case new of None \<Rightarrow> s1 | Some n \<Rightarrow> n) w1 = Value (s, w')"
    by (auto simp: e)
  obtain r1 where r1: "s1 = InfoReceived r1" "new = None"
    "buffered_transmits r1 = buffered_transmits r @ transmits (sid_generator r) c"
    "keep_alive r1 = keep_alive r" "sid_generator r1 = next_sid (sid_generator r) c"
    using 1(1) by (rule step_client_established)
  with 1(2) have "replay io cs now (InfoReceived r1) w1 = Value (s, w')" by simp
  from Cons.IH [OF _ this] r1 Cons.prems(1) e show ?case by fastforce
next
  case Nil
  from Nil(1) [of r] Nil(2) show ?case by simp
qed

subsection \<open>Subscription ids\<close>

text \<open>Every registered id was handed out: the invariant behind their uniqueness.\<close>

definition sids_issued :: "'tx info_received \<Rightarrow> bool" where
  "sids_issued r \<longleftrightarrow> (\<forall>k \<in> dom (sid2subscriber r). \<exists>n. k = u64_to_string n \<and> n < sid_generator r)"

lemma u64_to_string_inj [simp]: "u64_to_string m = u64_to_string n \<longleftrightarrow> m = n"
  using show_usize_inj [of m n] by (simp add: u64_to_string_def show_usize_def)

lemma sids_issued_established [simp]: "sids_issued established"
  by (simp add: sids_issued_def established_def)

lemma sids_issued_fresh:
  "sids_issued r \<Longrightarrow> sid2subscriber r (u64_to_string (sid_generator r)) = None"
  by (force simp: sids_issued_def)

lemma sid_less_next: "n \<noteq> - 1 \<Longrightarrow> n < n + 1" for n :: u64
  by (meson inc_less_eq_triv_imp not_le)

lemma next_sid_mono: "n \<noteq> - 1 \<Longrightarrow> n \<le> next_sid n c"
  by (cases c) (auto intro: less_imp_le sid_less_next)

lemma step_client_sids:
  assumes "step_client io (InfoReceived r) c now w = Value (InfoReceived r', new, w')"
    and "sids_issued r" "sid_generator r \<noteq> - 1"
  shows "sids_issued r'"
  unfolding sids_issued_def
proof
  fix k assume k: "k \<in> dom (sid2subscriber r')"
  have g: "sid_generator r' = next_sid (sid_generator r) c"
    and m: "sid2subscriber r' k = sid2subscriber r k \<or>
      (\<exists>subject options sender. c = Subscribe subject options sender \<and> k = u64_to_string (sid_generator r))"
    using step_client_established [OF assms(1)] k by (metis conn_state.inject(2) domIff)+
  from m show "\<exists>n. k = u64_to_string n \<and> n < sid_generator r'"
  proof
    assume "sid2subscriber r' k = sid2subscriber r k"
    then have "k \<in> dom (sid2subscriber r)" using k by (simp add: domIff)
    then obtain n where "k = u64_to_string n" "n < sid_generator r"
      using assms(2) by (auto simp: sids_issued_def)
    with next_sid_mono [OF assms(3), of c] show ?thesis unfolding g by (auto intro: less_le_trans)
  next
    assume "\<exists>subject options sender. c = Subscribe subject options sender \<and> k = u64_to_string (sid_generator r)"
    with sid_less_next [OF assms(3)] show ?thesis unfolding g by auto
  qed
qed

subsection \<open>What a command of the server does to an established connection\<close>

lemma step_server_established:
  assumes "step_server io (InfoReceived r) c now w = Value (s', new, w')"
  obtains ka where "s' = InfoReceived (r\<lparr>keep_alive := ka\<rparr>)" "new = None"
    "last_ping_sent_at ka = last_ping_sent_at (keep_alive r)"
    "last_pong_received_at ka = (if c = S_Pong then Some now else last_pong_received_at (keep_alive r))"
    "last_ping_received_at ka = (if c = S_Ping then Some now else last_ping_received_at (keep_alive r))"
  using assms that
  by (cases c) (force split: option.splits)+

lemma step_server_awaiting:
  assumes "step_server io (AwaitingInfo a) c now w = Value (s', new, w')"
  obtains i r where "c = S_Info i" "new = Some (InfoReceived r)" "s' = AwaitingInfo (a\<lparr>preliminary := []\<rparr>)"
      "replay io (preliminary a) now (InfoReceived established) w = Value (InfoReceived r, w')"
      "buffered_transmits r = C_Connect hello_connect # transmits_all 1 (map fst (preliminary a))"
      "keep_alive r = \<lparr>last_ping_sent_at = None, last_ping_received_at = None,
         last_pong_received_at = None\<rparr>"
      "sid_generator r = next_sids 1 (map fst (preliminary a))"
    | "\<forall>i. c \<noteq> S_Info i" "new = Some NotInfoReceived" "s' = AwaitingInfo a" "w' = w"
proof (cases c)
  case (S_Info i)
  then obtain x where x: "replay io (preliminary a) now (InfoReceived established) w = Value (x, w')"
    "new = Some x" "s' = AwaitingInfo (a\<lparr>preliminary := []\<rparr>)"
    using assms by auto
  obtain r where "x = InfoReceived r"
    "keep_alive r = \<lparr>last_ping_sent_at = None, last_ping_received_at = None,
         last_pong_received_at = None\<rparr>"
    "buffered_transmits r = C_Connect hello_connect # transmits_all 1 (map fst (preliminary a))"
    "sid_generator r = next_sids 1 (map fst (preliminary a))"
    by (rule replay_established [OF x(1)]) (simp add: established_def)
  with x S_Info that(1) show thesis by simp
qed (use assms that(2) in auto)

end
