(* ===== verification/Sans_Io_Binding.thy ===== *)
theory Sans_Io_Binding
  imports Sans_Io_State
begin

text \<open>
  \<open>nats_sans_io/src/lib.rs\<close>: \<open>NatsBinding\<close>, the connection without its input and output. The
  caller feeds it commands and the time, polls it for commands to transmit and for three
  deadlines, and calls the handler of a deadline that has passed.
\<close>

subsection \<open>Data and construction\<close>

record timeouts =
  ping_interval :: duration
  pong_delay :: duration
  keep_alive_limit :: duration

text \<open>\<open>NatsBinding\<close> with its one field \<open>state: State\<close>.\<close>

record ('one, 'tx) nats_binding =
  conn_state :: "('one, 'tx) conn_state"
  timeouts :: timeouts

definition new_binding :: "timeouts \<Rightarrow> ('one, 'tx) nats_binding" where
  "new_binding t = \<lparr>conn_state = AwaitingInfo \<lparr>preliminary = []\<rparr>, timeouts = t\<rparr>"

subsection \<open>Input and output\<close>

definition handle_server_input ::
  "('w, 'tx, 'rx, 'one) tokio_sync \<Rightarrow> ('one, 'tx) nats_binding \<Rightarrow> server_command \<Rightarrow> instant \<Rightarrow> 'w \<Rightarrow>
   (('one, 'tx) nats_binding \<times> 'w) run" where
  "handle_server_input io b command now w =
     run_bind (change_state (step_server io (conn_state b) command now w))
       (\<lambda>(s, w'). Value (b\<lparr>conn_state := s\<rparr>, w'))"

definition handle_client_input ::
  "('w, 'tx, 'rx, 'one) tokio_sync \<Rightarrow> ('one, 'tx) nats_binding \<Rightarrow> 'one connection_command \<Rightarrow> instant \<Rightarrow> 'w \<Rightarrow>
   (('one, 'tx) nats_binding \<times> 'w) run" where
  "handle_client_input io b command now w =
     run_bind (change_state (step_client io (conn_state b) command now w))
       (\<lambda>(s, w'). Value (b\<lparr>conn_state := s\<rparr>, w'))"

definition poll_transmit ::
  "('one, 'tx) nats_binding \<Rightarrow> client_command option \<times> ('one, 'tx) nats_binding" where
  "poll_transmit b =
     (case conn_state b of
        InfoReceived r \<Rightarrow>
          (case buffered_transmits r of
             [] \<Rightarrow> (None, b)
           | c # cs \<Rightarrow> (Some c, b\<lparr>conn_state := InfoReceived (r\<lparr>buffered_transmits := cs\<rparr>)\<rparr>))
      | _ \<Rightarrow> (None, b))"

subsection \<open>Timers\<close>

definition handle_send_ping_timeout ::
  "('one, 'tx) nats_binding \<Rightarrow> instant \<Rightarrow> ('one, 'tx) nats_binding" where
  "handle_send_ping_timeout b now =
     (case conn_state b of
        InfoReceived r \<Rightarrow>
          (let command = (case last_ping_sent_at (keep_alive r) of
               Some received_at \<Rightarrow>
                 (if ping_interval (timeouts b) \<le> duration_since now received_at then Some C_Ping
                  else None)
             | None \<Rightarrow> Some C_Ping)
           in case command of
                None \<Rightarrow> b
              | Some command \<Rightarrow> b\<lparr>conn_state := InfoReceived
                  (r\<lparr>buffered_transmits := buffered_transmits r @ [command],
                     keep_alive := (keep_alive r)\<lparr>last_ping_sent_at := Some now\<rparr>\<rparr>)\<rparr>)
      | _ \<Rightarrow> b)"

definition poll_send_ping_timeout ::
  "('one, 'tx) nats_binding \<Rightarrow> instant \<Rightarrow> instant option run" where
  "poll_send_ping_timeout b now =
     (case conn_state b of
        InfoReceived r \<Rightarrow>
          (case last_ping_sent_at (keep_alive r) of
             Some sent_at \<Rightarrow>
               run_bind (instant_add sent_at (ping_interval (timeouts b))) (\<lambda>t. Value (Some t))
           | None \<Rightarrow> Value (Some now))
      | _ \<Rightarrow> Value None)"

definition handle_send_pong_timeout ::
  "('one, 'tx) nats_binding \<Rightarrow> instant \<Rightarrow> ('one, 'tx) nats_binding" where
  "handle_send_pong_timeout b now =
     (case conn_state b of
        InfoReceived r \<Rightarrow>
          (let command = (case last_ping_received_at (keep_alive r) of
               Some received_at \<Rightarrow>
                 (if pong_delay (timeouts b) \<le> duration_since now received_at then Some C_Pong
                  else None)
             | None \<Rightarrow> None)
           in case command of
                None \<Rightarrow> b
              | Some pong \<Rightarrow> b\<lparr>conn_state := InfoReceived
                  (r\<lparr>buffered_transmits := buffered_transmits r @ [pong],
                     keep_alive := (keep_alive r)\<lparr>last_ping_received_at := None\<rparr>\<rparr>)\<rparr>)
      | _ \<Rightarrow> b)"

definition poll_send_pong_timeout :: "('one, 'tx) nats_binding \<Rightarrow> instant option run" where
  "poll_send_pong_timeout b =
     (case conn_state b of
        InfoReceived r \<Rightarrow>
          (case last_ping_received_at (keep_alive r) of
             None \<Rightarrow> Value None
           | Some i \<Rightarrow> run_bind (instant_add i (pong_delay (timeouts b))) (\<lambda>t. Value (Some t)))
      | _ \<Rightarrow> Value None)"

definition handle_keep_alive_timeout ::
  "('one, 'tx) nats_binding \<Rightarrow> instant \<Rightarrow> ('one, 'tx) nats_binding" where
  "handle_keep_alive_timeout b now =
     (case conn_state b of
        InfoReceived r \<Rightarrow>
          (case last_pong_received_at (keep_alive r) of
             Some received_at \<Rightarrow>
               (if keep_alive_limit (timeouts b) \<le> duration_since now received_at
                then b\<lparr>conn_state := ConnectionLost\<rparr> else b)
           | None \<Rightarrow> b)
      | _ \<Rightarrow> b)"

definition poll_keep_alive_timeout :: "('one, 'tx) nats_binding \<Rightarrow> instant option run" where
  "poll_keep_alive_timeout b =
     (case conn_state b of
        InfoReceived r \<Rightarrow>
          (case last_pong_received_at (keep_alive r) of
             None \<Rightarrow> Value None
           | Some i \<Rightarrow> run_bind (instant_add i (keep_alive_limit (timeouts b))) (\<lambda>t. Value (Some t)))
      | _ \<Rightarrow> Value None)"

subsection \<open>Deadlines\<close>

text \<open>
  The contract between a deadline and its handler, the same for the three pairs: the handler
  does nothing before the deadline or when there is none, it does something once the deadline
  has passed, and afterwards no deadline is due any more. The deadline is what the caller
  sleeps on, so together these say that it neither misses a timeout nor spins.
\<close>

locale timer =
  fixes handle :: "('one, 'tx) nats_binding \<Rightarrow> instant \<Rightarrow> ('one, 'tx) nats_binding"
    and poll :: "('one, 'tx) nats_binding \<Rightarrow> instant \<Rightarrow> instant option run"
    and period :: "timeouts \<Rightarrow> duration"
  assumes none: "poll b now = Value None \<Longrightarrow> handle b now = b"
    and early: "0 < period (timeouts b) \<Longrightarrow> poll b now = Value (Some t) \<Longrightarrow> now < t \<Longrightarrow> handle b now = b"
    and due: "poll b now = Value (Some t) \<Longrightarrow> t \<le> now \<Longrightarrow> handle b now \<noteq> b"
    and overflow: "0 < period (timeouts b) \<Longrightarrow> now < INSTANT_LIMIT \<Longrightarrow> poll b now = Panic \<Longrightarrow> handle b now = b"
    and rearm: "0 < period (timeouts b) \<Longrightarrow> handle b now \<noteq> b \<Longrightarrow>
      poll (handle b now) now = Value (Some t) \<Longrightarrow> now < t"
    and same_timeouts: "timeouts (handle b now) = timeouts b"
begin

lemma acts_iff_due:
  assumes "0 < period (timeouts b)" "now < INSTANT_LIMIT"
  shows "handle b now \<noteq> b \<longleftrightarrow> (\<exists>t \<le> now. poll b now = Value (Some t))"
proof (cases "poll b now")
  case Panic
  with overflow [OF assms] show ?thesis by simp
next
  case (Value x)
  show ?thesis
  proof (cases x)
    case None
    with Value none [of b now] show ?thesis by simp
  next
    case (Some t)
    with Value early [OF assms(1), of now t] due [of b now t] show ?thesis
      by (cases "now < t") auto
  qed
qed

lemma acts_once:
  assumes "0 < period (timeouts b)" "now < INSTANT_LIMIT"
  shows "handle (handle b now) now = handle b now"
proof (rule ccontr)
  assume a: "handle (handle b now) now \<noteq> handle b now"
  then obtain t where t: "t \<le> now" "poll (handle b now) now = Value (Some t)"
    using acts_iff_due [of "handle b now"] assms by (auto simp: same_timeouts)
  from a have "handle b now \<noteq> b" by metis
  with rearm [OF assms(1) _ t(2)] t(1) show False by simp
qed

end

lemmas ping_defs = handle_send_ping_timeout_def poll_send_ping_timeout_def
lemmas pong_defs = handle_send_pong_timeout_def poll_send_pong_timeout_def
lemmas keep_alive_defs = handle_keep_alive_timeout_def poll_keep_alive_timeout_def

lemma queue_grows_neq: "r\<lparr>buffered_transmits := buffered_transmits r @ [c], keep_alive := k\<rparr> \<noteq> r"
  by (cases r) simp

lemma instant_add_Panic [simp]: "instant_add t d = Panic \<longleftrightarrow> INSTANT_LIMIT \<le> t + d"
  by (simp add: instant_add_def not_less)

interpretation ping_timer: timer handle_send_ping_timeout poll_send_ping_timeout ping_interval
proof
  fix b :: "('one, 'tx) nats_binding" and now t
  show "poll_send_ping_timeout b now = Value None \<Longrightarrow> handle_send_ping_timeout b now = b"
    by (auto simp: ping_defs split: conn_state.splits option.splits)
  show "0 < ping_interval (timeouts b) \<Longrightarrow> poll_send_ping_timeout b now = Value (Some t) \<Longrightarrow> now < t \<Longrightarrow>
      handle_send_ping_timeout b now = b"
    by (auto simp: ping_defs duration_since_def split: conn_state.splits option.splits)
  show "poll_send_ping_timeout b now = Value (Some t) \<Longrightarrow> t \<le> now \<Longrightarrow> handle_send_ping_timeout b now \<noteq> b"
    by (auto simp: ping_defs duration_since_def split: conn_state.splits option.splits
        dest!: arg_cong [where f = conn_state] simp: queue_grows_neq)
  show "0 < ping_interval (timeouts b) \<Longrightarrow> now < INSTANT_LIMIT \<Longrightarrow> poll_send_ping_timeout b now = Panic \<Longrightarrow>
      handle_send_ping_timeout b now = b"
    by (auto simp: ping_defs duration_since_def run_bind_eq_Panic split: conn_state.splits option.splits)
  show "0 < ping_interval (timeouts b) \<Longrightarrow> handle_send_ping_timeout b now \<noteq> b \<Longrightarrow>
      poll_send_ping_timeout (handle_send_ping_timeout b now) now = Value (Some t) \<Longrightarrow> now < t"
    by (auto simp: ping_defs split: conn_state.splits option.splits if_splits)
  show "timeouts (handle_send_ping_timeout b now) = timeouts b"
    by (auto simp: ping_defs split: conn_state.splits option.splits)
qed

interpretation pong_timer: timer handle_send_pong_timeout "\<lambda>b _. poll_send_pong_timeout b" pong_delay
proof
  fix b :: "('one, 'tx) nats_binding" and now t
  show "poll_send_pong_timeout b = Value None \<Longrightarrow> handle_send_pong_timeout b now = b"
    by (auto simp: pong_defs split: conn_state.splits option.splits)
  show "0 < pong_delay (timeouts b) \<Longrightarrow> poll_send_pong_timeout b = Value (Some t) \<Longrightarrow> now < t \<Longrightarrow>
      handle_send_pong_timeout b now = b"
    by (auto simp: pong_defs duration_since_def split: conn_state.splits option.splits)
  show "poll_send_pong_timeout b = Value (Some t) \<Longrightarrow> t \<le> now \<Longrightarrow> handle_send_pong_timeout b now \<noteq> b"
    by (auto simp: pong_defs duration_since_def split: conn_state.splits option.splits
        dest!: arg_cong [where f = conn_state] simp: queue_grows_neq)
  show "0 < pong_delay (timeouts b) \<Longrightarrow> now < INSTANT_LIMIT \<Longrightarrow> poll_send_pong_timeout b = Panic \<Longrightarrow>
      handle_send_pong_timeout b now = b"
    by (auto simp: pong_defs duration_since_def run_bind_eq_Panic split: conn_state.splits option.splits)
  show "0 < pong_delay (timeouts b) \<Longrightarrow> handle_send_pong_timeout b now \<noteq> b \<Longrightarrow>
      poll_send_pong_timeout (handle_send_pong_timeout b now) = Value (Some t) \<Longrightarrow> now < t"
    by (auto simp: pong_defs split: conn_state.splits option.splits if_splits)
  show "timeouts (handle_send_pong_timeout b now) = timeouts b"
    by (auto simp: pong_defs split: conn_state.splits option.splits)
qed

interpretation keep_alive_timer: timer handle_keep_alive_timeout "\<lambda>b _. poll_keep_alive_timeout b" keep_alive_limit
proof
  fix b :: "('one, 'tx) nats_binding" and now t
  show "poll_keep_alive_timeout b = Value None \<Longrightarrow> handle_keep_alive_timeout b now = b"
    by (auto simp: keep_alive_defs split: conn_state.splits option.splits)
  show "0 < keep_alive_limit (timeouts b) \<Longrightarrow> poll_keep_alive_timeout b = Value (Some t) \<Longrightarrow> now < t \<Longrightarrow>
      handle_keep_alive_timeout b now = b"
    by (auto simp: keep_alive_defs duration_since_def split: conn_state.splits option.splits)
  show "poll_keep_alive_timeout b = Value (Some t) \<Longrightarrow> t \<le> now \<Longrightarrow> handle_keep_alive_timeout b now \<noteq> b"
    by (auto simp: keep_alive_defs duration_since_def split: conn_state.splits option.splits
        dest!: arg_cong [where f = conn_state])
  show "0 < keep_alive_limit (timeouts b) \<Longrightarrow> now < INSTANT_LIMIT \<Longrightarrow> poll_keep_alive_timeout b = Panic \<Longrightarrow>
      handle_keep_alive_timeout b now = b"
    by (auto simp: keep_alive_defs duration_since_def run_bind_eq_Panic split: conn_state.splits option.splits)
  show "0 < keep_alive_limit (timeouts b) \<Longrightarrow> handle_keep_alive_timeout b now \<noteq> b \<Longrightarrow>
      poll_keep_alive_timeout (handle_keep_alive_timeout b now) = Value (Some t) \<Longrightarrow> now < t"
    by (auto simp: keep_alive_defs split: conn_state.splits option.splits if_splits)
  show "timeouts (handle_keep_alive_timeout b now) = timeouts b"
    by (auto simp: keep_alive_defs split: conn_state.splits option.splits)
qed

end
