(* ===== verification/Binding_Runs.thy ===== *)
theory Binding_Runs
  imports Sans_Io_Binding
begin

text \<open>
  The runs of a \<open>NatsBinding\<close>: a step relation whose events are the calls its owner makes, in
  any order, and the facts that hold along every run from \<open>NatsBinding::new\<close>. A call that
  panics has no step, so a run is a history in which no call panicked.
\<close>

subsection \<open>Steps and runs\<close>

datatype 'one event =
    Server_input server_command instant
  | Client_input "'one connection_command" instant
  | Transmit "client_command option"
  | Send_ping_timeout instant
  | Send_pong_timeout instant
  | Keep_alive_timeout instant

inductive binding_step ::
  "('w, 'tx, 'rx, 'one) tokio_sync \<Rightarrow> ('one, 'tx) nats_binding \<times> 'w \<Rightarrow> 'one event \<Rightarrow>
   ('one, 'tx) nats_binding \<times> 'w \<Rightarrow> bool" for io where
  server_step: "handle_server_input io b c now w = Value (b', w') \<Longrightarrow>
    binding_step io (b, w) (Server_input c now) (b', w')"
| client_step: "handle_client_input io b c now w = Value (b', w') \<Longrightarrow>
    binding_step io (b, w) (Client_input c now) (b', w')"
| transmit_step: "poll_transmit b = (c, b') \<Longrightarrow> binding_step io (b, w) (Transmit c) (b', w)"
| send_ping_step: "binding_step io (b, w) (Send_ping_timeout now) (handle_send_ping_timeout b now, w)"
| send_pong_step: "binding_step io (b, w) (Send_pong_timeout now) (handle_send_pong_timeout b now, w)"
| keep_alive_step: "binding_step io (b, w) (Keep_alive_timeout now) (handle_keep_alive_timeout b now, w)"

inductive_simps binding_step_simps [simp]:
  "binding_step io (b, w) (Server_input c now) x"
  "binding_step io (b, w) (Client_input k now) x"
  "binding_step io (b, w) (Transmit t) x"
  "binding_step io (b, w) (Send_ping_timeout now) x"
  "binding_step io (b, w) (Send_pong_timeout now) x"
  "binding_step io (b, w) (Keep_alive_timeout now) x"

inductive binding_run ::
  "('w, 'tx, 'rx, 'one) tokio_sync \<Rightarrow> ('one, 'tx) nats_binding \<times> 'w \<Rightarrow> 'one event list \<Rightarrow>
   ('one, 'tx) nats_binding \<times> 'w \<Rightarrow> bool" for io where
  run_Nil: "binding_run io x [] x"
| run_snoc: "binding_run io x es y \<Longrightarrow> binding_step io y e z \<Longrightarrow> binding_run io x (es @ [e]) z"

text \<open>What has been handed to the transport, and what waits to be.\<close>

fun polled :: "'one event list \<Rightarrow> client_command list" where
  "polled [] = []"
| "polled (Transmit (Some c) # es) = c # polled es"
| "polled (_ # es) = polled es"

lemma polled_append [simp]: "polled (es @ es') = polled es @ polled es'"
  by (induction es rule: polled.induct) simp_all

definition queued :: "('one, 'tx) nats_binding \<Rightarrow> client_command list" where
  "queued b = (case conn_state b of InfoReceived r \<Rightarrow> buffered_transmits r | _ \<Rightarrow> [])"

lemma queued_not_established: "\<forall>r. conn_state b \<noteq> InfoReceived r \<Longrightarrow> queued b = []"
  by (cases "conn_state b") (simp_all add: queued_def)

text \<open>Induction over a run with an invariant of history and state.\<close>

lemma run_invariant:
  assumes "binding_run io x es y" "I [] x"
    and "\<And>es b w e b' w'. I es (b, w) \<Longrightarrow> binding_step io (b, w) e (b', w') \<Longrightarrow> I (es @ [e]) (b', w')"
  shows "I es y"
  using assms(1,2)
proof (induction rule: binding_run.induct)
  case (run_snoc x es y e z)
  then show ?case using assms(3) by (cases y; cases z) auto
qed simp

subsection \<open>One step on the queue\<close>

text \<open>
  The effect of an event on an established connection, for the parts that histories speak of:
  the commands it appends to the queue and the commands it takes off the front.
\<close>

fun appended :: "'tx info_received \<Rightarrow> timeouts \<Rightarrow> 'one event \<Rightarrow> client_command list" where
  "appended r t (Client_input c now) = transmits (sid_generator r) c"
| "appended r t (Send_ping_timeout now) =
     (case last_ping_sent_at (keep_alive r) of
        None \<Rightarrow> [C_Ping]
      | Some s \<Rightarrow> if ping_interval t \<le> duration_since now s then [C_Ping] else [])"
| "appended r t (Send_pong_timeout now) =
     (case last_ping_received_at (keep_alive r) of
        None \<Rightarrow> []
      | Some s \<Rightarrow> if pong_delay t \<le> duration_since now s then [C_Pong] else [])"
| "appended r t _ = []"

lemma established_step:
  assumes "binding_step io (b, w) e (b', w')" "conn_state b = InfoReceived r"
  shows "timeouts b' = timeouts b \<and>
    ((conn_state b' = ConnectionLost \<and> (\<exists>now. e = Keep_alive_timeout now)) \<or>
     (\<exists>r'. conn_state b' = InfoReceived r' \<and>
       polled [e] @ buffered_transmits r' = buffered_transmits r @ appended r (timeouts b) e \<and>
       sid_generator r' = (case e of Client_input c _ \<Rightarrow> next_sid (sid_generator r) c | _ \<Rightarrow> sid_generator r)))"
proof (cases e)
  case (Server_input c now)
  with assms obtain s new where s: "step_server io (InfoReceived r) c now w = Value (s, new, w')"
    "b' = b\<lparr>conn_state := case new of None \<Rightarrow> s | Some n \<Rightarrow> n\<rparr>"
    by (auto simp: handle_server_input_def change_state_def)
  from s(1) show ?thesis by (rule step_server_established) (simp add: s(2) Server_input)
next
  case (Client_input c now)
  with assms obtain s new where s: "step_client io (InfoReceived r) c now w = Value (s, new, w')"
    "b' = b\<lparr>conn_state := case new of None \<Rightarrow> s | Some n \<Rightarrow> n\<rparr>"
    by (auto simp: handle_client_input_def change_state_def)
  from s(1) show ?thesis by (rule step_client_established) (simp add: s(2) Client_input)
next
  case (Transmit c)
  with assms show ?thesis by (auto simp: poll_transmit_def split: list.splits)
next
  case (Send_ping_timeout now)
  with assms show ?thesis
    by (auto simp: handle_send_ping_timeout_def split: option.splits)
next
  case (Send_pong_timeout now)
  with assms show ?thesis
    by (auto simp: handle_send_pong_timeout_def split: option.splits)
next
  case (Keep_alive_timeout now)
  with assms show ?thesis
    by (auto simp: handle_keep_alive_timeout_def split: option.splits)
qed

text \<open>
  The effect of an event on a connection that is not established: a backlog entry, a refusal,
  or the replay of the backlog.
\<close>

lemma other_step:
  assumes "binding_step io (b, w) e (b', w')" "\<forall>r. conn_state b \<noteq> InfoReceived r"
  shows "timeouts b' = timeouts b \<and> polled [e] = [] \<and>
    (conn_state b' = conn_state b \<or>
     (\<exists>a c now. conn_state b = AwaitingInfo a \<and> e = Client_input c now \<and>
       conn_state b' = AwaitingInfo (a\<lparr>preliminary := preliminary a @ [(c, now)]\<rparr>)) \<or>
     (\<exists>a c now. conn_state b = AwaitingInfo a \<and> e = Server_input c now \<and> (\<forall>i. c \<noteq> S_Info i) \<and>
       conn_state b' = NotInfoReceived) \<or>
     (\<exists>a i now r. conn_state b = AwaitingInfo a \<and> e = Server_input (S_Info i) now \<and>
       conn_state b' = InfoReceived r \<and>
       replay io (preliminary a) now (InfoReceived established) w = Value (InfoReceived r, w')))"
proof (cases e)
  case (Server_input c now)
  with assms(1) obtain s new where s: "step_server io (conn_state b) c now w = Value (s, new, w')"
    "b' = b\<lparr>conn_state := case new of None \<Rightarrow> s | Some n \<Rightarrow> n\<rparr>"
    by (auto simp: handle_server_input_def change_state_def)
  show ?thesis
  proof (cases "conn_state b")
    case (AwaitingInfo a)
    from s(1) [unfolded AwaitingInfo] show ?thesis
      by (rule step_server_awaiting) (simp_all add: s(2) Server_input AwaitingInfo)
  qed (use s assms(2) Server_input in auto)
next
  case (Client_input c now)
  with assms show ?thesis
    by (cases "conn_state b") (auto simp: handle_client_input_def change_state_def)
qed (use assms in \<open>auto simp: poll_transmit_def handle_send_ping_timeout_def
    handle_send_pong_timeout_def handle_keep_alive_timeout_def split: conn_state.splits\<close>)

subsection \<open>CONNECT opens every history\<close>

definition connect_first :: "client_command list \<Rightarrow> bool" where
  "connect_first h \<longleftrightarrow>
     h = [] \<or> (\<exists>t. h = C_Connect hello_connect # t \<and> (\<forall>x. C_Connect x \<notin> set t))"

lemma connect_first_append:
  "connect_first h \<Longrightarrow> h \<noteq> [] \<Longrightarrow> \<forall>x. C_Connect x \<notin> set l \<Longrightarrow> connect_first (h @ l)"
  by (auto simp: connect_first_def)

lemma connect_first_prefix: "connect_first (h @ l) \<Longrightarrow> connect_first h"
  by (cases h) (auto simp: connect_first_def)

lemma transmits_no_connect: "C_Connect x \<notin> set (transmits n c)"
  by (cases c) (auto split: option.splits)

lemma transmits_all_no_connect: "C_Connect x \<notin> set (transmits_all n cs)"
  by (induction cs arbitrary: n) (simp_all add: transmits_no_connect)

lemma appended_no_connect: "C_Connect x \<notin> set (appended r t e)"
  by (cases e) (auto simp: transmits_no_connect split: option.splits)

text \<open>The history of a connection, \<open>polled es @ queued b\<close>, grows at its end.\<close>

lemma history_step:
  assumes "binding_step io (b, w) e (b', w')"
  obtains r r' where "conn_state b = InfoReceived r" "conn_state b' = InfoReceived r'"
      "polled (es @ [e]) @ queued b' = polled es @ queued b @ appended r (timeouts b) e"
      "sid_generator r' = (case e of Client_input c _ \<Rightarrow> next_sid (sid_generator r) c | _ \<Rightarrow> sid_generator r)"
    | "conn_state b' = ConnectionLost" "polled (es @ [e]) = polled es" "queued b' = []"
    | a r where "conn_state b = AwaitingInfo a" "conn_state b' = InfoReceived r" "polled (es @ [e]) = polled es"
      "queued b' = C_Connect hello_connect # transmits_all 1 (map fst (preliminary a))"
      "sid_generator r = next_sids 1 (map fst (preliminary a))"
    | "\<forall>r. conn_state b' \<noteq> InfoReceived r" "polled (es @ [e]) = polled es" "queued b' = []"
      "\<forall>r. conn_state b \<noteq> InfoReceived r"
      "(\<exists>a. conn_state b' = AwaitingInfo a) \<longrightarrow> (\<exists>a. conn_state b = AwaitingInfo a)"
proof (cases "\<exists>r. conn_state b = InfoReceived r")
  case True
  then obtain r where r: "conn_state b = InfoReceived r" by blast
  from established_step [OF assms r] show thesis
  proof (elim conjE disjE exE)
    fix now assume "conn_state b' = ConnectionLost" "e = Keep_alive_timeout now"
    then show thesis by (intro that(2)) (simp_all add: queued_def)
  next
    fix r' assume "conn_state b' = InfoReceived r'"
      "polled [e] @ buffered_transmits r' = buffered_transmits r @ appended r (timeouts b) e"
      "sid_generator r' = (case e of Client_input c _ \<Rightarrow> next_sid (sid_generator r) c | _ \<Rightarrow> sid_generator r)"
    with r show thesis by (intro that(1)) (simp_all add: queued_def)
  qed
next
  case False
  then have n: "\<forall>r. conn_state b \<noteq> InfoReceived r" by blast
  from other_step [OF assms n] have p: "polled (es @ [e]) = polled es" by simp
  from other_step [OF assms n] show thesis
  proof (elim conjE disjE exE)
    fix a i now r
    assume "conn_state b = AwaitingInfo a" "conn_state b' = InfoReceived r"
      and "replay io (preliminary a) now (InfoReceived established) w = Value (InfoReceived r, w')"
    moreover from this(3) have "buffered_transmits r =
        C_Connect hello_connect # transmits_all 1 (map fst (preliminary a)) \<and>
        sid_generator r = next_sids 1 (map fst (preliminary a))"
      by (rule replay_established) (simp add: established_def)
    ultimately show thesis using p that(3) by (simp add: queued_def)
  qed (insert n p, (rule that(4); simp add: queued_not_established)+)
qed

definition connected_history :: "'one event list \<Rightarrow> ('one, 'tx) nats_binding \<times> 'w \<Rightarrow> bool" where
  "connected_history es y \<longleftrightarrow> connect_first (polled es @ queued (fst y)) \<and>
    ((\<exists>r. conn_state (fst y) = InfoReceived r) \<longrightarrow> polled es @ queued (fst y) \<noteq> []) \<and>
    ((\<exists>a. conn_state (fst y) = AwaitingInfo a) \<longrightarrow> polled es = [])"

lemma connected_history_step:
  assumes i: "connected_history es (b, w)" and s: "binding_step io (b, w) e (b', w')"
  shows "connected_history (es @ [e]) (b', w')"
  using s
proof (rule history_step [where es = es])
  fix r r' assume "conn_state b = InfoReceived r" "conn_state b' = InfoReceived r'"
    "polled (es @ [e]) @ queued b' = polled es @ queued b @ appended r (timeouts b) e"
  with i connect_first_append [of "polled es @ queued b" "appended r (timeouts b) e"]
    appended_no_connect [of _ r "timeouts b" e] show ?thesis
    by (auto simp: connected_history_def simp del: polled_append)
next
  assume "conn_state b' = ConnectionLost" "polled (es @ [e]) = polled es" "queued b' = []"
  with i show ?thesis
    by (auto simp: connected_history_def simp del: polled_append intro: connect_first_prefix)
next
  fix a r
  assume "conn_state b = AwaitingInfo a" "conn_state b' = InfoReceived r"
    "polled (es @ [e]) = polled es"
    "queued b' = C_Connect hello_connect # transmits_all 1 (map fst (preliminary a))"
  with i show ?thesis
    by (simp add: connected_history_def connect_first_def transmits_all_no_connect del: polled_append)
next
  assume "\<forall>r. conn_state b' \<noteq> InfoReceived r" "polled (es @ [e]) = polled es" "queued b' = []"
    "\<forall>r. conn_state b \<noteq> InfoReceived r"
    "(\<exists>a. conn_state b' = AwaitingInfo a) \<longrightarrow> (\<exists>a. conn_state b = AwaitingInfo a)"
  with i show ?thesis
    by (auto simp: connected_history_def simp del: polled_append intro: connect_first_prefix)
qed

lemma run_connected:
  assumes "binding_run io (new_binding t, w) es y"
  shows "connected_history es y"
  using assms
  by (rule run_invariant [where I = connected_history, OF _ _ connected_history_step])
    (simp_all add: connected_history_def connect_first_def queued_def new_binding_def)

subsection \<open>Subscription ids count up\<close>

text \<open>The ids of the subscriptions of a history, and the ids a generator hands out.\<close>

fun subscribe_sids :: "client_command list \<Rightarrow> rstring list" where
  "subscribe_sids [] = []"
| "subscribe_sids (C_Subscribe s # h) = sub_sid s # subscribe_sids h"
| "subscribe_sids (_ # h) = subscribe_sids h"

definition sids_upto :: "nat \<Rightarrow> rstring list" where
  "sids_upto k = map (\<lambda>i. u64_to_string (of_nat i)) [1..<Suc k]"

lemma subscribe_sids_append [simp]: "subscribe_sids (g @ h) = subscribe_sids g @ subscribe_sids h"
  by (induction g rule: subscribe_sids.induct) simp_all

lemma sids_upto_0 [simp]: "sids_upto 0 = []"
  by (simp add: sids_upto_def)

lemma sids_upto_Suc: "sids_upto (Suc k) = sids_upto k @ [u64_to_string (of_nat (Suc k))]"
  by (simp add: sids_upto_def)

lemma length_sids_upto [simp]: "length (sids_upto k) = k"
  by (simp add: sids_upto_def)

lemma sids_upto_prefix: "xs @ ys = sids_upto k \<Longrightarrow> xs = sids_upto (length xs)"
proof (induction k arbitrary: ys)
  case 0
  then show ?case by (simp add: sids_upto_def)
next
  case (Suc k)
  then show ?case
    by (cases ys rule: rev_exhaust)
      (force simp: sids_upto_Suc simp flip: append_assoc, auto simp: sids_upto_Suc simp flip: append_assoc)
qed

lemma distinct_sids_upto: "k < 2 ^ 64 \<Longrightarrow> distinct (sids_upto k)"
  unfolding sids_upto_def distinct_map
  by (auto intro!: inj_onI dest!: inj_onD [OF inj_on_word_of_nat])

definition counted :: "client_command list \<Rightarrow> u64 \<Rightarrow> bool" where
  "counted h n \<longleftrightarrow> (\<exists>k. subscribe_sids h = sids_upto k \<and> n = of_nat (Suc k))"

lemma counted_transmits: "counted h n \<Longrightarrow> counted (h @ transmits n c) (next_sid n c)"
proof (cases c)
  case (Subscribe subject options sender)
  assume "counted h n"
  then obtain k where k: "subscribe_sids h = sids_upto k" "n = of_nat (Suc k)"
    by (auto simp: counted_def)
  then have "subscribe_sids (h @ transmits n c) = sids_upto (Suc k)" "next_sid n c = of_nat (Suc (Suc k))"
    using Subscribe by (simp_all add: sids_upto_Suc split: option.splits)
  then show ?thesis unfolding counted_def by blast
qed (simp_all add: counted_def)

lemma counted_transmits_all:
  "counted h n \<Longrightarrow> counted (h @ transmits_all n cs) (next_sids n cs)"
proof (induction cs arbitrary: h n)
  case (Cons c cs)
  from Cons.IH [OF counted_transmits [OF Cons.prems, of c]] show ?case by simp
qed simp

lemma counted_appended:
  "counted h (sid_generator r) \<Longrightarrow> counted (h @ appended r t e)
     (case e of Client_input c _ \<Rightarrow> next_sid (sid_generator r) c | _ \<Rightarrow> sid_generator r)"
proof (cases e)
  case (Client_input c now)
  then show "counted h (sid_generator r) \<Longrightarrow> ?thesis" by (simp add: counted_transmits)
qed (auto simp: counted_def split: option.splits)

definition counted_history :: "'one event list \<Rightarrow> ('one, 'tx) nats_binding \<times> 'w \<Rightarrow> bool" where
  "counted_history es y \<longleftrightarrow>
     (\<exists>k. subscribe_sids (polled es @ queued (fst y)) = sids_upto k) \<and>
     (\<forall>r. conn_state (fst y) = InfoReceived r \<longrightarrow> counted (polled es @ queued (fst y)) (sid_generator r)) \<and>
     ((\<exists>a. conn_state (fst y) = AwaitingInfo a) \<longrightarrow> polled es = [])"

lemma counted_history_step:
  assumes i: "counted_history es (b, w)" and s: "binding_step io (b, w) e (b', w')"
  shows "counted_history (es @ [e]) (b', w')"
  using s
proof (rule history_step [where es = es])
  fix r r' assume "conn_state b = InfoReceived r" "conn_state b' = InfoReceived r'"
    "polled (es @ [e]) @ queued b' = polled es @ queued b @ appended r (timeouts b) e"
    "sid_generator r' = (case e of Client_input c _ \<Rightarrow> next_sid (sid_generator r) c | _ \<Rightarrow> sid_generator r)"
  with i counted_appended [of "polled es @ queued b" r "timeouts b" e] show ?thesis
    by (auto simp: counted_history_def counted_def simp del: polled_append)
next
  assume "conn_state b' = ConnectionLost" "polled (es @ [e]) = polled es" "queued b' = []"
  with i show ?thesis
    by (auto simp: counted_history_def simp del: polled_append dest: sids_upto_prefix)
next
  fix a r
  assume "conn_state b = AwaitingInfo a" "conn_state b' = InfoReceived r"
    "polled (es @ [e]) = polled es"
    "queued b' = C_Connect hello_connect # transmits_all 1 (map fst (preliminary a))"
    "sid_generator r = next_sids 1 (map fst (preliminary a))"
  moreover have "counted [C_Connect hello_connect] 1"
    unfolding counted_def by (intro exI [of _ 0]) (simp add: sids_upto_def)
  note counted_transmits_all [OF this, of "map fst (preliminary a)"]
  ultimately show ?thesis using i
    by (auto simp: counted_history_def counted_def simp del: polled_append)
next
  assume "\<forall>r. conn_state b' \<noteq> InfoReceived r" "polled (es @ [e]) = polled es" "queued b' = []"
    "\<forall>r. conn_state b \<noteq> InfoReceived r"
    "(\<exists>a. conn_state b' = AwaitingInfo a) \<longrightarrow> (\<exists>a. conn_state b = AwaitingInfo a)"
  with i show ?thesis
    by (auto simp: counted_history_def simp del: polled_append dest: sids_upto_prefix)
qed

lemma run_counted:
  assumes "binding_run io (new_binding t, w) es y"
  shows "counted_history es y"
  using assms
  by (rule run_invariant [where I = counted_history, OF _ _ counted_history_step])
    (auto simp: counted_history_def queued_def new_binding_def intro: exI [of _ 0])

subsection \<open>Registered ids were issued\<close>

lemma generator_not_last:
  "n = of_nat (Suc k) \<Longrightarrow> k < 2 ^ 64 - 2 \<Longrightarrow> n \<noteq> - 1" for n :: u64
proof
  assume n: "n = of_nat (Suc k)" and k: "k < 2 ^ 64 - 2" and "n = - 1"
  have "(- 1 :: u64) = of_nat (2 ^ 64 - 1)" by simp
  with n \<open>n = - 1\<close> have "(of_nat (Suc k) :: u64) = of_nat (2 ^ 64 - 1)" by simp
  then have "Suc k = 2 ^ 64 - 1"
    by (rule inj_onD [OF inj_on_word_of_nat]) (use k in simp_all)
  with k show False by simp
qed

lemma sids_issued_update [simp]:
  "sids_issued (r\<lparr>keep_alive := ka\<rparr>) = sids_issued r"
  "sids_issued (r\<lparr>buffered_transmits := q\<rparr>) = sids_issued r"
  by (simp_all add: sids_issued_def)

lemma established_generator [simp]: "sid_generator established = 1"
  by (simp add: established_def)

lemma replay_sids:
  assumes "replay io cs now (InfoReceived r) w = Value (InfoReceived r', w')"
    and "sids_issued r" "sid_generator r = of_nat (Suc k)"
    and "k + length (subscribe_sids (transmits_all (sid_generator r) (map fst cs))) < 2 ^ 64 - 2"
  shows "sids_issued r'"
  using assms
proof (induction cs arbitrary: r w k)
  case (Cons e cs)
  obtain c t where e: "e = (c, t)" by force
  from Cons.prems(1) obtain s new w1 where st: "step_client io (InfoReceived r) c now w = Value (s, new, w1)"
    "replay io cs now (case new of None \<Rightarrow> s | Some n \<Rightarrow> n) w1 = Value (InfoReceived r', w')"
    by (auto simp: e)
  obtain r1 where r1: "s = InfoReceived r1" "new = None"
    "sid_generator r1 = next_sid (sid_generator r) c"
    using st(1) by (rule step_client_established)
  have "sids_issued r1"
    using step_client_sids [OF st(1) [unfolded r1] Cons.prems(2)]
      generator_not_last [OF Cons.prems(3)] Cons.prems(4) by simp
  moreover have "sid_generator r1 = of_nat (Suc (k + length (subscribe_sids (transmits (sid_generator r) c))))"
    using r1(3) Cons.prems(3) by (cases c) (auto split: option.splits)
  ultimately show ?case
    using Cons.IH [of r1 w1 "k + length (subscribe_sids (transmits (sid_generator r) c))"]
      st(2) r1 Cons.prems(4) e by (simp add: add.assoc)
qed simp

lemma established_registry:
  assumes "binding_step io (b, w) e (b', w')" "conn_state b = InfoReceived r" "conn_state b' = InfoReceived r'"
    and "sids_issued r" "sid_generator r \<noteq> - 1"
  shows "sids_issued r'"
proof (cases e)
  case (Server_input c now)
  with assms(1,2) obtain s new where s: "step_server io (InfoReceived r) c now w = Value (s, new, w')"
    "b' = b\<lparr>conn_state := case new of None \<Rightarrow> s | Some n \<Rightarrow> n\<rparr>"
    by (auto simp: handle_server_input_def change_state_def)
  from s(1) show ?thesis
    by (rule step_server_established) (use s(2) assms(3,4) in auto)
next
  case (Client_input c now)
  with assms(1,2) obtain s new where s: "step_client io (InfoReceived r) c now w = Value (s, new, w')"
    "b' = b\<lparr>conn_state := case new of None \<Rightarrow> s | Some n \<Rightarrow> n\<rparr>"
    by (auto simp: handle_client_input_def change_state_def)
  with step_client_keeps_state [OF s(1)] assms(3) have "s = InfoReceived r'" by simp
  with step_client_sids [of io r c now w r' new w'] s(1) assms(4,5) show ?thesis by simp
qed (use assms in \<open>auto simp: poll_transmit_def handle_send_ping_timeout_def
    handle_send_pong_timeout_def handle_keep_alive_timeout_def split: list.splits option.splits if_splits\<close>)

definition issued_history :: "'one event list \<Rightarrow> ('one, 'tx) nats_binding \<times> 'w \<Rightarrow> bool" where
  "issued_history es y \<longleftrightarrow> counted_history es y \<and>
     (\<forall>r. conn_state (fst y) = InfoReceived r \<longrightarrow>
        length (subscribe_sids (polled es @ queued (fst y))) < 2 ^ 64 - 2 \<longrightarrow> sids_issued r)"

lemma issued_history_step:
  assumes i: "issued_history es (b, w)" and s: "binding_step io (b, w) e (b', w')"
  shows "issued_history (es @ [e]) (b', w')"
proof -
  have c: "counted_history es (b, w)" using i by (simp add: issued_history_def)
  have "sids_issued r'" if r': "conn_state b' = InfoReceived r'"
    and l: "length (subscribe_sids (polled (es @ [e]) @ queued b')) < 2 ^ 64 - 2" for r'
  proof (cases "\<exists>r. conn_state b = InfoReceived r")
    case True
    then obtain r where r: "conn_state b = InfoReceived r" by blast
    have h: "polled (es @ [e]) @ queued b' = polled es @ queued b @ appended r (timeouts b) e"
      using established_step [OF s r] r r' by (auto simp: queued_def)
    have b: "length (subscribe_sids (polled es @ queued b)) < 2 ^ 64 - 2"
      using l unfolding h by simp
    then have "sids_issued r" using i r by (simp add: issued_history_def)
    moreover obtain k where "subscribe_sids (polled es @ queued b) = sids_upto k"
      "sid_generator r = of_nat (Suc k)"
      using c r by (auto simp: counted_history_def counted_def)
    then have "sid_generator r \<noteq> - 1" using b generator_not_last by simp
    ultimately show ?thesis by (rule established_registry [OF s r r'])
  next
    case False
    then have n: "\<forall>r. conn_state b \<noteq> InfoReceived r" by blast
    with r' have "conn_state b' \<noteq> conn_state b" by metis
    then obtain a i now where a: "conn_state b = AwaitingInfo a" "e = Server_input (S_Info i) now"
      "replay io (preliminary a) now (InfoReceived established) w = Value (InfoReceived r', w')"
      using other_step [OF s n] r' by auto
    have "polled es = []" using c a(1) by (simp add: counted_history_def)
    moreover have "buffered_transmits r' = C_Connect hello_connect # transmits_all 1 (map fst (preliminary a))"
      by (rule replay_established [OF a(3)]) (simp add: established_def)
    ultimately show ?thesis
      using l a r' by (intro replay_sids [OF a(3), of 0]) (simp_all add: queued_def)
  qed
  with counted_history_step [OF c s] show ?thesis by (simp add: issued_history_def)
qed

lemma run_issued:
  assumes "binding_run io (new_binding t, w) es y"
  shows "issued_history es y"
  using assms
  by (rule run_invariant [where I = issued_history, OF _ _ issued_history_step])
    (auto simp: issued_history_def counted_history_def queued_def new_binding_def intro: exI [of _ 0])

end
