(* ===== verification/Keep_Alive.thy ===== *)
theory Keep_Alive
  imports Binding_Runs
begin

text \<open>
  The keep-alive logic over time: how the three timestamps move along a run, how often a
  \<open>PING\<close> can be queued, when a connection counts as lost, that a lost or refused
  connection stays so, and that \<open>PONG\<close>s answer \<open>PING\<close>s.
\<close>

subsection \<open>The timestamps along a step\<close>

lemma established_timestamps:
  assumes "binding_step io (b, w) e (b', w')" "conn_state b = InfoReceived r" "conn_state b' = InfoReceived r'"
  shows "last_pong_received_at (keep_alive r') =
      (case e of Server_input c now \<Rightarrow> if c = S_Pong then Some now else last_pong_received_at (keep_alive r)
       | _ \<Rightarrow> last_pong_received_at (keep_alive r))"
    and "last_ping_sent_at (keep_alive r') =
      (case e of Send_ping_timeout now \<Rightarrow>
          if appended r (timeouts b) e = [] then last_ping_sent_at (keep_alive r) else Some now
       | _ \<Rightarrow> last_ping_sent_at (keep_alive r))"
    and "last_ping_received_at (keep_alive r') =
      (case e of Server_input c now \<Rightarrow> if c = S_Ping then Some now else last_ping_received_at (keep_alive r)
       | Send_pong_timeout now \<Rightarrow>
          if appended r (timeouts b) e = [] then last_ping_received_at (keep_alive r) else None
       | _ \<Rightarrow> last_ping_received_at (keep_alive r))"
proof -
  have "last_pong_received_at (keep_alive r') =
      (case e of Server_input c now \<Rightarrow> if c = S_Pong then Some now else last_pong_received_at (keep_alive r)
       | _ \<Rightarrow> last_pong_received_at (keep_alive r)) \<and>
    last_ping_sent_at (keep_alive r') =
      (case e of Send_ping_timeout now \<Rightarrow>
          if appended r (timeouts b) e = [] then last_ping_sent_at (keep_alive r) else Some now
       | _ \<Rightarrow> last_ping_sent_at (keep_alive r)) \<and>
    last_ping_received_at (keep_alive r') =
      (case e of Server_input c now \<Rightarrow> if c = S_Ping then Some now else last_ping_received_at (keep_alive r)
       | Send_pong_timeout now \<Rightarrow>
          if appended r (timeouts b) e = [] then last_ping_received_at (keep_alive r) else None
       | _ \<Rightarrow> last_ping_received_at (keep_alive r))"
  proof (cases e)
    case (Server_input c now)
    with assms obtain s new where s: "step_server io (InfoReceived r) c now w = Value (s, new, w')"
      "b' = b\<lparr>conn_state := case new of None \<Rightarrow> s | Some n \<Rightarrow> n\<rparr>"
      by (auto simp: handle_server_input_def change_state_def)
    from s(1) show ?thesis
      by (rule step_server_established) (use s(2) assms(3) Server_input in auto)
  next
    case (Client_input c now)
    with assms obtain s new where s: "step_client io (InfoReceived r) c now w = Value (s, new, w')"
      "b' = b\<lparr>conn_state := case new of None \<Rightarrow> s | Some n \<Rightarrow> n\<rparr>"
      by (auto simp: handle_client_input_def change_state_def)
    from s(1) show ?thesis
      by (rule step_client_established) (use s(2) assms(3) Client_input in auto)
  qed (use assms in \<open>auto simp: poll_transmit_def handle_send_ping_timeout_def
      handle_send_pong_timeout_def handle_keep_alive_timeout_def split: list.splits option.splits if_splits\<close>)
  then show "last_pong_received_at (keep_alive r') =
      (case e of Server_input c now \<Rightarrow> if c = S_Pong then Some now else last_pong_received_at (keep_alive r)
       | _ \<Rightarrow> last_pong_received_at (keep_alive r))"
    and "last_ping_sent_at (keep_alive r') =
      (case e of Send_ping_timeout now \<Rightarrow>
          if appended r (timeouts b) e = [] then last_ping_sent_at (keep_alive r) else Some now
       | _ \<Rightarrow> last_ping_sent_at (keep_alive r))"
    and "last_ping_received_at (keep_alive r') =
      (case e of Server_input c now \<Rightarrow> if c = S_Ping then Some now else last_ping_received_at (keep_alive r)
       | Send_pong_timeout now \<Rightarrow>
          if appended r (timeouts b) e = [] then last_ping_received_at (keep_alive r) else None
       | _ \<Rightarrow> last_ping_received_at (keep_alive r))"
    by blast+
qed

lemma lost_step:
  assumes "binding_step io (b, w) e (b', w')" "conn_state b = InfoReceived r" "conn_state b' = ConnectionLost"
  obtains now t where "e = Keep_alive_timeout now" "last_pong_received_at (keep_alive r) = Some t"
    "keep_alive_limit (timeouts b) \<le> duration_since now t"
proof -
  obtain now where "e = Keep_alive_timeout now" using established_step [OF assms(1,2)] assms(3) by auto
  with assms that show thesis
    by (auto simp: handle_keep_alive_timeout_def split: option.splits if_splits)
qed

lemma refused_step:
  assumes "binding_step io (b, w) e (b', w')" "conn_state b \<in> {NotInfoReceived, ConnectionLost}"
  shows "b' = b \<and> w' = w \<and> polled [e] = []"
  using assms
  by (cases e) (auto simp: handle_server_input_def handle_client_input_def change_state_def poll_transmit_def
      handle_send_ping_timeout_def handle_send_pong_timeout_def handle_keep_alive_timeout_def)

lemma refused_run:
  assumes "binding_run io (b, w) es y" "conn_state b \<in> {NotInfoReceived, ConnectionLost}"
  shows "y = (b, w) \<and> polled es = []"
  using assms(1)
  by (rule run_invariant [where I = "\<lambda>es y. y = (b, w) \<and> polled es = []"])
    (use assms(2) in \<open>auto simp del: binding_step_simps dest: refused_step\<close>)

subsection \<open>When the connection is lost\<close>

text \<open>The last \<open>PONG\<close> of a history.\<close>

fun last_pong :: "'one event list \<Rightarrow> instant option" where
  "last_pong [] = None"
| "last_pong (e # es) =
     (case last_pong es of
        Some t \<Rightarrow> Some t
      | None \<Rightarrow> (case e of Server_input c now \<Rightarrow> if c = S_Pong then Some now else None | _ \<Rightarrow> None))"

lemma last_pong_snoc:
  "last_pong (es @ [e]) =
     (case e of Server_input c now \<Rightarrow> if c = S_Pong then Some now else last_pong es | _ \<Rightarrow> last_pong es)"
  by (induction es) (auto split: event.splits option.splits)

definition pong_history :: "'one event list \<Rightarrow> ('one, 'tx) nats_binding \<times> 'w \<Rightarrow> bool" where
  "pong_history es y \<longleftrightarrow>
     (case conn_state (fst y) of
        AwaitingInfo a \<Rightarrow> last_pong es = None
      | InfoReceived r \<Rightarrow> last_pong_received_at (keep_alive r) = last_pong es
      | NotInfoReceived \<Rightarrow> True
      | ConnectionLost \<Rightarrow> (\<exists>es1 now es2 t. es = es1 @ Keep_alive_timeout now # es2 \<and>
           last_pong es1 = Some t \<and> keep_alive_limit (timeouts (fst y)) \<le> duration_since now t))"

lemma pong_history_step:
  assumes i: "pong_history es (b, w)" and s: "binding_step io (b, w) e (b', w')"
  shows "pong_history (es @ [e]) (b', w')"
proof (cases "conn_state b")
  case (InfoReceived r)
  have t: "timeouts b' = timeouts b" using established_step [OF s InfoReceived] by blast
  from established_step [OF s InfoReceived] consider r' where "conn_state b' = InfoReceived r'"
    | "conn_state b' = ConnectionLost" by blast
  then show ?thesis
  proof cases
    case 1
    then show ?thesis
      using established_timestamps(1) [OF s InfoReceived 1] i InfoReceived
      by (cases e) (simp_all add: pong_history_def last_pong_snoc)
  next
    case 2
    obtain now t where "e = Keep_alive_timeout now" "last_pong_received_at (keep_alive r) = Some t"
      "keep_alive_limit (timeouts b) \<le> duration_since now t"
      by (rule lost_step [OF s InfoReceived 2])
    moreover from this have "es @ [e] = es @ Keep_alive_timeout now # []" "last_pong es = Some t"
      using i InfoReceived by (simp_all add: pong_history_def)
    ultimately show ?thesis using 2 t unfolding pong_history_def by fastforce
  qed
next
  case ConnectionLost
  with refused_step [OF s] have "b' = b" by simp
  moreover obtain es1 now es2 t where "es = es1 @ Keep_alive_timeout now # es2" "last_pong es1 = Some t"
    "keep_alive_limit (timeouts b) \<le> duration_since now t"
    using i ConnectionLost by (auto simp: pong_history_def)
  moreover from this(1) have "es @ [e] = es1 @ Keep_alive_timeout now # es2 @ [e]" by simp
  ultimately show ?thesis using ConnectionLost unfolding pong_history_def by fastforce
next
  case NotInfoReceived
  with refused_step [OF s] show ?thesis by (simp add: pong_history_def)
next
  case (AwaitingInfo a)
  then have n: "\<forall>r. conn_state b \<noteq> InfoReceived r" by simp
  from other_step [OF s n] AwaitingInfo i show ?thesis
  proof (elim conjE disjE exE)
    assume "conn_state b' = conn_state b"
    moreover have "\<forall>c now. e \<noteq> Server_input c now"
      using s AwaitingInfo \<open>conn_state b' = conn_state b\<close>
      by (cases e) (auto simp: handle_server_input_def change_state_def elim!: step_server_awaiting)
    ultimately show ?thesis using i AwaitingInfo
      by (cases e) (auto simp: pong_history_def last_pong_snoc)
  next
    fix a i now r
    assume "e = Server_input (S_Info i) now" "conn_state b' = InfoReceived r"
      "replay io (preliminary a) now (InfoReceived established) w = Value (InfoReceived r, w')"
    moreover from this(3) have "last_pong_received_at (keep_alive r) = None"
      by (rule replay_established) (simp add: established_def)
    ultimately show ?thesis using i AwaitingInfo
      by (simp add: pong_history_def last_pong_snoc)
  qed (use i AwaitingInfo in \<open>auto simp: pong_history_def last_pong_snoc\<close>)
qed

lemma run_pong_history:
  assumes "binding_run io (new_binding t, w) es y"
  shows "pong_history es y"
  using assms
  by (rule run_invariant [where I = pong_history, OF _ _ pong_history_step])
    (simp_all add: pong_history_def new_binding_def)

lemma run_timeouts:
  assumes "binding_run io (b, w) es y"
  shows "timeouts (fst y) = timeouts b"
  using assms
proof (rule run_invariant)
  show "timeouts (fst (b, w)) = timeouts b" by simp
next
  fix es b1 w1 e b2 w2
  assume "timeouts (fst (b1, w1)) = timeouts b" "binding_step io (b1, w1) e (b2, w2)"
  then show "timeouts (fst (b2, w2)) = timeouts b"
    using established_step [of io b1 w1 e b2 w2] other_step [of io b1 w1 e b2 w2] by fastforce
qed

subsection \<open>How often a PING is queued\<close>

text \<open>
  Once a \<open>PING\<close> has been queued at time \<open>s\<close>, the history gains none as long as the handler is only
  called with times before \<open>s\<close> plus the interval.
\<close>

definition quiet :: "instant \<Rightarrow> nat \<Rightarrow> 'one event list \<Rightarrow> ('one, 'tx) nats_binding \<times> 'w \<Rightarrow> bool" where
  "quiet s n es y \<longleftrightarrow> count_list (polled es @ queued (fst y)) C_Ping \<le> n \<and>
     (case conn_state (fst y) of InfoReceived r \<Rightarrow> last_ping_sent_at (keep_alive r) = Some s
      | AwaitingInfo a \<Rightarrow> False | _ \<Rightarrow> True)"

lemma transmits_no_ping: "C_Ping \<notin> set (transmits n c)"
  by (cases c) (auto split: option.splits)

lemma quiet_step:
  assumes q: "quiet s n es (b, w)" and st: "binding_step io (b, w) e (b', w')"
    and early: "\<forall>now. e = Send_ping_timeout now \<longrightarrow> duration_since now s < ping_interval (timeouts b)"
  shows "quiet s n (es @ [e]) (b', w')"
proof (cases "\<exists>r. conn_state b = InfoReceived r")
  case True
  then obtain r where r: "conn_state b = InfoReceived r" by blast
  with q have l: "last_ping_sent_at (keep_alive r) = Some s" by (simp add: quiet_def)
  have a: "C_Ping \<notin> set (appended r (timeouts b) e)"
    using early l by (cases e) (auto simp: transmits_no_ping split: option.splits)
  from st show ?thesis
  proof (rule history_step [where es = es])
    fix r0 r' assume r0: "conn_state b = InfoReceived r0" and r': "conn_state b' = InfoReceived r'"
      and h: "polled (es @ [e]) @ queued b' = polled es @ queued b @ appended r0 (timeouts b) e"
    have "appended r (timeouts b) e = []" if "e = Send_ping_timeout now" for now
      using early that l by auto
    then have "last_ping_sent_at (keep_alive r') = Some s"
      using established_timestamps(2) [OF st r r'] l by (cases e) auto
    moreover have "count_list (appended r0 (timeouts b) e) C_Ping = 0" using a r r0 by simp
    ultimately show ?thesis
      using q r' unfolding quiet_def fst_conv h by simp
  qed (use q r in \<open>auto simp: quiet_def simp del: polled_append\<close>)
next
  case False
  with q have "conn_state b \<in> {NotInfoReceived, ConnectionLost}"
    by (auto simp: quiet_def split: conn_state.splits)
  from refused_step [OF st this] q show ?thesis by (auto simp: quiet_def)
qed

subsection \<open>PONGs answer PINGs\<close>

fun is_ping :: "'one event \<Rightarrow> bool" where
  "is_ping (Server_input c now) \<longleftrightarrow> c = S_Ping"
| "is_ping _ \<longleftrightarrow> False"

text \<open>
  Along a run from a connection with \<open>n\<close> \<open>PONG\<close>s in its queue and no \<open>PING\<close> to answer: every \<open>PONG\<close>
  and the answer still due come from different \<open>PING\<close>s of the run, and once there was a \<open>PING\<close>, a
  \<open>PONG\<close> has been added or is due.
\<close>

definition answering :: "nat \<Rightarrow> 'one event list \<Rightarrow> ('one, 'tx) nats_binding \<times> 'w \<Rightarrow> bool" where
  "answering n es y \<longleftrightarrow>
     (case conn_state (fst y) of
        InfoReceived r \<Rightarrow>
          count_list (polled es @ queued (fst y)) C_Pong +
            (if last_ping_received_at (keep_alive r) = None then 0 else 1) \<le> n + length (filter is_ping es) \<and>
          n \<le> count_list (polled es @ queued (fst y)) C_Pong \<and>
          (\<forall>t. last_ping_received_at (keep_alive r) = Some t \<longrightarrow> Server_input S_Ping t \<in> set es) \<and>
          (filter is_ping es \<noteq> [] \<longrightarrow> n < count_list (polled es @ queued (fst y)) C_Pong \<or>
             last_ping_received_at (keep_alive r) \<noteq> None)
      | AwaitingInfo a \<Rightarrow> False
      | _ \<Rightarrow> True)"

lemma transmits_no_pong: "C_Pong \<notin> set (transmits n c)"
  by (cases c) (auto split: option.splits)

lemma answering_step:
  assumes a: "answering n es (b, w)" and s: "binding_step io (b, w) e (b', w')"
  shows "answering n (es @ [e]) (b', w')"
proof (cases "\<exists>r. conn_state b = InfoReceived r")
  case True
  then obtain r where r: "conn_state b = InfoReceived r" by blast
  from s show ?thesis
  proof (rule history_step [where es = es])
    fix r0 r' assume "conn_state b = InfoReceived r0" and r': "conn_state b' = InfoReceived r'"
      and h: "polled (es @ [e]) @ queued b' = polled es @ queued b @ appended r0 (timeouts b) e"
    with r have h: "polled (es @ [e]) @ queued b' = polled es @ queued b @ appended r (timeouts b) e" by simp
    have "count_list (appended r (timeouts b) e) C_Pong =
        (if last_ping_received_at (keep_alive r) \<noteq> None \<and> (\<exists>now. e = Send_pong_timeout now) \<and>
            appended r (timeouts b) e \<noteq> [] then 1 else 0)"
      by (cases e) (auto simp: transmits_no_pong count_list_0_iff split: option.splits)
    then show ?thesis
      using a r r' established_timestamps(3) [OF s r r'] unfolding answering_def fst_conv h
      by (cases e) (auto split: if_splits)
  qed (use r in \<open>auto simp: answering_def\<close>)
next
  case False
  with a have c: "conn_state b \<in> {NotInfoReceived, ConnectionLost}"
    by (auto simp: answering_def split: conn_state.splits)
  from refused_step [OF s this] have "b' = b" by simp
  with c show ?thesis by (auto simp: answering_def)
qed

lemma run_answering:
  assumes "binding_run io (b, w) es y" "conn_state b = InfoReceived r"
    and "last_ping_received_at (keep_alive r) = None"
  shows "answering (count_list (queued b) C_Pong) es y"
  using assms(1)
  by (rule run_invariant [where I = "answering (count_list (queued b) C_Pong)", OF _ _ answering_step])
    (use assms(2,3) in \<open>simp add: answering_def\<close>)

end
