(* ===== verification/Binding_Properties.thy ===== *)
theory Binding_Properties
  imports Keep_Alive
begin

text \<open>
  What a \<open>NatsBinding\<close> promises its owner: the order and content of what it transmits, the
  delivery of messages to subscribers, its timers and its final states. The channels enter
  with their documented behaviour (\<open>mpsc_ok\<close>, \<open>async_context\<close>); \<open>ref_sync\<close> is a concrete
  instance with bounded queues for the witnesses.
\<close>

subsection \<open>Channels\<close>

text \<open>
  A view of the world: the messages in a channel, whether its receiver still exists, and its
  capacity. \<open>try_send\<close> succeeds exactly when the receiver exists and there is room, and then
  appends; a failed or successful send changes nothing else.
\<close>

record ('w, 'tx) mpsc_view =
  queue_of :: "'w \<Rightarrow> 'tx \<Rightarrow> message list"
  is_open :: "'w \<Rightarrow> 'tx \<Rightarrow> bool"
  capacity_of :: "'w \<Rightarrow> 'tx \<Rightarrow> nat"

definition mpsc_ok ::
  "('w, 'tx, 'rx, 'one) tokio_sync \<Rightarrow> ('w, 'tx) mpsc_view \<Rightarrow> bool" where
  "mpsc_ok io v \<longleftrightarrow> (\<forall>tx m w. case try_send io tx m w of (ok, w') \<Rightarrow>
     ok = (is_open v w tx \<and> length (queue_of v w tx) < capacity_of v w tx) \<and>
     (ok \<longrightarrow> queue_of v w' = (queue_of v w)(tx := queue_of v w tx @ [m])) \<and>
     is_open v w' = is_open v w \<and> capacity_of v w' = capacity_of v w)"

text \<open>\<open>blocking_send\<close> "panics if called within an asynchronous execution context".\<close>

definition async_context :: "('w, 'tx, 'rx, 'one) tokio_sync \<Rightarrow> bool" where
  "async_context io \<longleftrightarrow> (\<forall>tx m w. blocking_send io tx m w = Panic)"

text \<open>A world of numbered channels, and the responses that have been sent.\<close>

record ref_world =
  rw_chans :: "(nat \<times> message list) list"
  rw_replies :: "(nat \<times> nat subscribe_response) list"

definition ref_try_send :: "nat \<Rightarrow> message \<Rightarrow> ref_world \<Rightarrow> bool \<times> ref_world" where
  "ref_try_send tx m w =
     (if tx < length (rw_chans w) \<and> length (snd (rw_chans w ! tx)) < fst (rw_chans w ! tx)
      then (True, w\<lparr>rw_chans := (rw_chans w)[tx := (fst (rw_chans w ! tx), snd (rw_chans w ! tx) @ [m])]\<rparr>)
      else (False, w))"

definition ref_sync :: "(ref_world, nat, nat, nat) tokio_sync" where
  "ref_sync =
     \<lparr>mpsc_channel = (\<lambda>n w. ((length (rw_chans w), length (rw_chans w)),
        w\<lparr>rw_chans := rw_chans w @ [(n, [])]\<rparr>)),
      try_send = ref_try_send,
      blocking_send = (\<lambda>tx m w. Panic),
      oneshot_send = (\<lambda>one resp w. (True, w\<lparr>rw_replies := rw_replies w @ [(one, resp)]\<rparr>))\<rparr>"

definition ref_view :: "(ref_world, nat) mpsc_view" where
  "ref_view =
     \<lparr>queue_of = (\<lambda>w tx. if tx < length (rw_chans w) then snd (rw_chans w ! tx) else []),
      is_open = (\<lambda>w tx. tx < length (rw_chans w)),
      capacity_of = (\<lambda>w tx. if tx < length (rw_chans w) then fst (rw_chans w ! tx) else 0)\<rparr>"

definition ref_world0 :: ref_world where
  "ref_world0 = \<lparr>rw_chans = [], rw_replies = []\<rparr>"

lemma mpsc_ok_ref: "mpsc_ok ref_sync ref_view"
  by (auto simp: mpsc_ok_def ref_sync_def ref_view_def ref_try_send_def nth_list_update fun_eq_iff)

lemma async_context_ref: "async_context ref_sync"
  by (simp add: async_context_def ref_sync_def)

subsection \<open>Sequences of inputs\<close>

fun client_inputs ::
  "('w, 'tx, 'rx, 'one) tokio_sync \<Rightarrow> ('one, 'tx) nats_binding \<Rightarrow> ('one connection_command \<times> instant) list \<Rightarrow>
   'w \<Rightarrow> (('one, 'tx) nats_binding \<times> 'w) run" where
  "client_inputs io b [] w = Value (b, w)"
| "client_inputs io b ((c, now) # cs) w =
     run_bind (handle_client_input io b c now w) (\<lambda>(b', w'). client_inputs io b' cs w')"

fun server_inputs ::
  "('w, 'tx, 'rx, 'one) tokio_sync \<Rightarrow> ('one, 'tx) nats_binding \<Rightarrow> (server_command \<times> instant) list \<Rightarrow>
   'w \<Rightarrow> (('one, 'tx) nats_binding \<times> 'w) run" where
  "server_inputs io b [] w = Value (b, w)"
| "server_inputs io b ((c, now) # cs) w =
     run_bind (handle_server_input io b c now w) (\<lambda>(b', w'). server_inputs io b' cs w')"

lemma client_inputs_awaiting:
  "conn_state b = AwaitingInfo a \<Longrightarrow> client_inputs io b cs w =
    Value (b\<lparr>conn_state := AwaitingInfo (a\<lparr>preliminary := preliminary a @ cs\<rparr>)\<rparr>, w)"
proof (induction cs arbitrary: a b)
  case Nil
  then show ?case by (cases b) simp
next
  case (Cons x cs)
  obtain c now where x: "x = (c, now)" by force
  let ?b = "b\<lparr>conn_state := AwaitingInfo (a\<lparr>preliminary := preliminary a @ [(c, now)]\<rparr>)\<rparr>"
  have "handle_client_input io b c now w = Value (?b, w)"
    using Cons.prems by (simp add: handle_client_input_def change_state_def)
  with Cons.IH [of ?b "a\<lparr>preliminary := preliminary a @ [(c, now)]\<rparr>"] x show ?case by simp
qed

lemma client_inputs_established:
  "conn_state b = InfoReceived r \<Longrightarrow> client_inputs io b cs w =
    run_bind (replay io cs now (InfoReceived r) w) (\<lambda>(s, w'). Value (b\<lparr>conn_state := s\<rparr>, w'))"
proof (induction cs arbitrary: b r w)
  case Nil
  then show ?case by (cases b) simp
next
  case (Cons x cs)
  obtain c t where x: "x = (c, t)" by force
  have tm: "step_client io (InfoReceived r) c t w = step_client io (InfoReceived r) c now w"
    by (rule step_client_time)
  show ?case
  proof (cases "step_client io (InfoReceived r) c now w")
    case Panic
    with Cons.prems x tm show ?thesis by (simp add: handle_client_input_def change_state_def)
  next
    case (Value y)
    obtain s new w' where y: "y = (s, new, w')" by (metis prod_cases3)
    with Value have st: "step_client io (InfoReceived r) c now w = Value (s, new, w')" by simp
    obtain r' where "s = InfoReceived r'" "new = None" by (rule step_client_established [OF st])
    with st Cons.prems x tm Cons.IH [of "b\<lparr>conn_state := InfoReceived r'\<rparr>" r' w'] show ?thesis
      by (simp add: handle_client_input_def change_state_def)
  qed
qed

lemma replay_direct:
  "run_bind (client_inputs io (new_binding t) cs w) (\<lambda>(b, w'). handle_server_input io b (S_Info i) now w') =
   run_bind (handle_server_input io (new_binding t) (S_Info i) now w) (\<lambda>(b, w'). client_inputs io b cs w')"
proof -
  have a: "conn_state (new_binding t) = AwaitingInfo \<lparr>preliminary = []\<rparr>" by (simp add: new_binding_def)
  let ?e = "(new_binding t)\<lparr>conn_state := InfoReceived established\<rparr>"
  have "client_inputs io ?e cs w =
      run_bind (replay io cs now (InfoReceived established) w) (\<lambda>(s, w'). Value (?e\<lparr>conn_state := s\<rparr>, w'))"
    by (rule client_inputs_established) simp
  then show ?thesis
    unfolding client_inputs_awaiting [OF a]
    by (cases "replay io cs now (InfoReceived established) w")
      (auto simp: handle_server_input_def change_state_def a)
qed

subsection \<open>Delivery\<close>

text \<open>The messages of a list of server commands that are for one channel, in order.\<close>

fun delivered :: "'tx info_received \<Rightarrow> (server_command \<times> instant) list \<Rightarrow> 'tx \<Rightarrow> message list" where
  "delivered r [] tx = []"
| "delivered r ((S_Msg m, _) # cs) tx =
     (if sid2subscriber r (msg_sid m) = Some tx then message_of_msg m # delivered r cs tx
      else delivered r cs tx)"
| "delivered r (_ # cs) tx = delivered r cs tx"

lemma delivered_keep_alive [simp]: "delivered (r\<lparr>keep_alive := k\<rparr>) cs tx = delivered r cs tx"
  by (induction r cs tx rule: delivered.induct) simp_all

definition no_hmsg :: "(server_command \<times> instant) list \<Rightarrow> bool" where
  "no_hmsg cs \<longleftrightarrow> (\<forall>h now. (S_HMsg h, now) \<notin> set cs)"

definition fits :: "('w, 'tx) mpsc_view \<Rightarrow> 'w \<Rightarrow> ('tx \<Rightarrow> message list) \<Rightarrow> bool" where
  "fits v w ms \<longleftrightarrow> (\<forall>tx. ms tx \<noteq> [] \<longrightarrow>
     is_open v w tx \<and> length (queue_of v w tx) + length (ms tx) \<le> capacity_of v w tx)"

lemma handle_other:
  assumes "conn_state b = InfoReceived r" "\<forall>m. c \<noteq> S_Msg m" "\<forall>h. c \<noteq> S_HMsg h"
  obtains k where "handle_server_input io b c now w = Value (b\<lparr>conn_state := InfoReceived (r\<lparr>keep_alive := k\<rparr>)\<rparr>, w)"
proof (cases c)
  case S_Ok
  with assms that [of "keep_alive r"] show thesis by (simp add: handle_server_input_def change_state_def)
next
  case S_Err
  with assms that [of "keep_alive r"] show thesis by (simp add: handle_server_input_def change_state_def)
next
  case S_Info
  with assms that [of "keep_alive r"] show thesis by (simp add: handle_server_input_def change_state_def)
qed (use assms that in \<open>auto simp: handle_server_input_def change_state_def\<close>)

lemma server_inputs_delivered:
  assumes v: "mpsc_ok io v"
  shows "conn_state b = InfoReceived r \<Longrightarrow> no_hmsg cs \<Longrightarrow>
    (if fits v w (delivered r cs)
     then \<exists>b' w' r'. server_inputs io b cs w = Value (b', w') \<and> conn_state b' = InfoReceived r' \<and>
       sid2subscriber r' = sid2subscriber r \<and> buffered_transmits r' = buffered_transmits r \<and>
       (\<forall>tx. queue_of v w' tx = queue_of v w tx @ delivered r cs tx)
     else server_inputs io b cs w = Panic)"
proof (induction cs arbitrary: b r w)
  case Nil
  then show ?case by (simp add: fits_def)
next
  case (Cons x cs)
  obtain c now where x: "x = (c, now)" by force
  have nh: "no_hmsg cs" "\<forall>h. c \<noteq> S_HMsg h" using Cons.prems(2) x by (auto simp: no_hmsg_def)
  show ?case
  proof (cases "\<exists>m tx. c = S_Msg m \<and> sid2subscriber r (msg_sid m) = Some tx")
    case False
    have d: "delivered r (x # cs) = delivered r cs"
      using False x by (cases c) (auto simp: fun_eq_iff)
    obtain k where "handle_server_input io b c now w = Value (b\<lparr>conn_state := InfoReceived (r\<lparr>keep_alive := k\<rparr>)\<rparr>, w)"
    proof (cases "\<exists>m. c = S_Msg m")
      case True
      with False Cons.prems(1) that [of "keep_alive r"] show thesis
        by (auto simp: handle_server_input_def change_state_def)
    next
      case no: False
      then show thesis using handle_other [OF Cons.prems(1) _ nh(2), of io now w thesis] that by blast
    qed
    then show ?thesis
      using Cons.IH [of "b\<lparr>conn_state := InfoReceived (r\<lparr>keep_alive := k\<rparr>)\<rparr>" "r\<lparr>keep_alive := k\<rparr>" w] nh d x
      by (auto split: if_splits)
  next
    case True
    then obtain m tx where m: "c = S_Msg m" "sid2subscriber r (msg_sid m) = Some tx" by blast
    then have d: "delivered r (x # cs) = (delivered r cs)(tx := message_of_msg m # delivered r cs tx)"
      using x by (auto simp: fun_eq_iff)
    obtain ok w' where t: "try_send io tx (message_of_msg m) w = (ok, w')" by force
    with v have ok: "ok = (is_open v w tx \<and> length (queue_of v w tx) < capacity_of v w tx)"
      "ok \<Longrightarrow> queue_of v w' = (queue_of v w)(tx := queue_of v w tx @ [message_of_msg m])"
      "is_open v w' = is_open v w" "capacity_of v w' = capacity_of v w"
      by (auto simp: mpsc_ok_def dest!: spec [of _ tx] spec [of _ "message_of_msg m"] spec [of _ w])
    show ?thesis
    proof (cases ok)
      case False
      then have "\<not> fits v w (delivered r (x # cs))"
        using ok(1) by (auto simp: fits_def d intro!: exI [of _ tx])
      moreover have "server_inputs io b (x # cs) w = Panic"
        using False m x t Cons.prems(1)
        by (simp add: handle_server_input_def change_state_def run_bind_eq_Panic)
      ultimately show ?thesis by simp
    next
      case True
      have "handle_server_input io b c now w = Value (b, w')"
        using True m t Cons.prems(1)
        by (cases b) (simp add: handle_server_input_def change_state_def)
      then have s: "server_inputs io b (x # cs) w = server_inputs io b cs w'" using x by simp
      have f: "fits v w (delivered r (x # cs)) \<longleftrightarrow> fits v w' (delivered r cs)"
        using True ok unfolding fits_def d by (auto split: if_splits)
      show ?thesis
        using Cons.IH [OF Cons.prems(1) nh(1), of w'] ok(2) [OF True]
        unfolding s f by (auto simp: d split: if_splits)
    qed
  qed
qed

subsection \<open>Running events\<close>

text \<open>The step relation as a function: every event has at most one outcome.\<close>

fun run_value :: "'a run \<Rightarrow> 'a option" where
  "run_value (Value x) = Some x"
| "run_value Panic = None"

fun exec_event ::
  "('w, 'tx, 'rx, 'one) tokio_sync \<Rightarrow> ('one, 'tx) nats_binding \<times> 'w \<Rightarrow> 'one event \<Rightarrow>
   (('one, 'tx) nats_binding \<times> 'w) option" where
  "exec_event io (b, w) (Server_input c now) = run_value (handle_server_input io b c now w)"
| "exec_event io (b, w) (Client_input c now) = run_value (handle_client_input io b c now w)"
| "exec_event io (b, w) (Transmit c) =
     (case poll_transmit b of (c', b') \<Rightarrow> if c' = c then Some (b', w) else None)"
| "exec_event io (b, w) (Send_ping_timeout now) = Some (handle_send_ping_timeout b now, w)"
| "exec_event io (b, w) (Send_pong_timeout now) = Some (handle_send_pong_timeout b now, w)"
| "exec_event io (b, w) (Keep_alive_timeout now) = Some (handle_keep_alive_timeout b now, w)"

fun exec_events ::
  "('w, 'tx, 'rx, 'one) tokio_sync \<Rightarrow> ('one, 'tx) nats_binding \<times> 'w \<Rightarrow> 'one event list \<Rightarrow>
   (('one, 'tx) nats_binding \<times> 'w) option" where
  "exec_events io x [] = Some x"
| "exec_events io x (e # es) = Option.bind (exec_event io x e) (\<lambda>y. exec_events io y es)"

lemma run_value_Some [simp]: "run_value r = Some x \<longleftrightarrow> r = Value x"
  by (cases r) auto

lemma exec_event_step: "exec_event io x e = Some y \<longleftrightarrow> binding_step io x e y"
  by (cases x; cases y; cases e) (auto split: prod.splits)

lemma run_Cons: "binding_run io y es z \<Longrightarrow> binding_step io x e y \<Longrightarrow> binding_run io x (e # es) z"
proof (induction rule: binding_run.induct)
  case (run_Nil y)
  then show ?case using run_snoc [OF binding_run.run_Nil, of io x e y] by simp
next
  case (run_snoc y es z e' u)
  then show ?case using binding_run.run_snoc [of io x "e # es" z e' u] by simp
qed

lemma exec_events_run: "exec_events io x es = Some y \<Longrightarrow> binding_run io x es y"
  by (induction es arbitrary: x)
    (auto simp: bind_eq_Some_conv exec_event_step intro: run_Nil run_Cons)

end
