(* ===== verification/Tokio_Client.thy ===== *)
theory Tokio_Client
  imports Binding_Properties
begin

text \<open>
  \<open>nats_client/src/tokio\<close>: the loop that drives a \<open>NatsBinding\<close> over a TCP stream, the handle
  through which the user talks to it, and the subscriber stream. The runtime is a parameter:
  the writer, the tickers and the command channel of \<open>tokio\<close>. What \<open>select!\<close> picks is an event of
  the environment, with the time the runtime reports; an \<open>await\<close> splits a function in two.
\<close>

subsection \<open>The runtime\<close>

text \<open>
  \<open>writer_send\<close>: \<open>FramedWrite::send\<close>, whose result the code ignores. \<open>reset_at\<close>:
  \<open>Interval::reset_at\<close>. \<open>'net\<close> is the writer and what is behind it, \<open>'tk\<close> a ticker.
\<close>

record ('net, 'tk) runtime =
  writer_send :: "client_command \<Rightarrow> 'net \<Rightarrow> 'net"
  reset_at :: "'tk \<Rightarrow> instant \<Rightarrow> 'tk"

record ('one, 'tx, 'net, 'tk) loop_state =
  binding :: "('one, 'tx) nats_binding"
  writer :: 'net
  send_ping_ticker :: 'tk
  recv_ping_ticker :: 'tk
  recv_pong_ticker :: 'tk

text \<open>
  The arms of \<open>select!\<close>. A tick carries its time and the ticker after it; a received command
  and a frame carry \<open>Instant::now()\<close>. \<open>reader.next()\<close> yields a command, an error, or \<open>None\<close> when
  the stream has ended.
\<close>

datatype ('one, 'tk) arm =
    Send_ping_tick instant 'tk
  | Recv_ping_tick instant 'tk
  | Recv_pong_tick instant 'tk
  | Command_received "'one connection_command" instant
  | Frame "(server_decode_error + server_command) option" instant

subsection \<open>The loop\<close>

text \<open>The head of the loop: while the binding has something to transmit, send it and continue.\<close>

lemma poll_transmit_shrinks: "poll_transmit b = (Some c, b') \<Longrightarrow> length (queued b') < length (queued b)"
  by (auto simp: poll_transmit_def queued_def split: conn_state.splits list.splits)

function transmit_all ::
  "('net, 'tk) runtime \<Rightarrow> ('one, 'tx) nats_binding \<Rightarrow> 'net \<Rightarrow> ('one, 'tx) nats_binding \<times> 'net" where
  "transmit_all rt b net =
     (case poll_transmit b of
        (Some transmit, b') \<Rightarrow> transmit_all rt b' (writer_send rt transmit net)
      | (None, b') \<Rightarrow> (b', net))"
  by pat_completeness auto
termination
  by (relation "measure (\<lambda>(rt, b, net). length (queued b))") (auto dest: sym [THEN poll_transmit_shrinks])

declare transmit_all.simps [simp del]

text \<open>One arm; the flag says whether the loop goes on.\<close>

fun select_arm ::
  "('w, 'tx, 'rx, 'one) tokio_sync \<Rightarrow> ('one, 'tx, 'net, 'tk) loop_state \<Rightarrow> ('one, 'tk) arm \<Rightarrow> 'w \<Rightarrow>
   (bool \<times> ('one, 'tx, 'net, 'tk) loop_state \<times> 'w) run" where
  "select_arm io s (Send_ping_tick time tk) w =
     Value (True, s\<lparr>send_ping_ticker := tk, binding := handle_send_ping_timeout (binding s) time\<rparr>, w)"
| "select_arm io s (Recv_ping_tick time tk) w =
     Value (True, s\<lparr>recv_ping_ticker := tk, binding := handle_send_pong_timeout (binding s) time\<rparr>, w)"
| "select_arm io s (Recv_pong_tick time tk) w =
     Value (True, s\<lparr>recv_pong_ticker := tk, binding := handle_keep_alive_timeout (binding s) time\<rparr>, w)"
| "select_arm io s (Command_received command now) w =
     run_bind (handle_client_input io (binding s) command now w)
       (\<lambda>(b, w'). Value (True, s\<lparr>binding := b\<rparr>, w'))"
| "select_arm io s (Frame (Some (Inr command)) now) w =
     run_bind (handle_server_input io (binding s) command now w)
       (\<lambda>(b, w'). Value (True, s\<lparr>binding := b\<rparr>, w'))"
| "select_arm io s (Frame (Some (Inl e)) now) w = Value (True, s, w)"
| "select_arm io s (Frame None now) w = Value (False, s, w)"

text \<open>The tail of the loop: every ticker whose deadline is known is set to it.\<close>

definition reset_ticker :: "('net, 'tk) runtime \<Rightarrow> instant option \<Rightarrow> 'tk \<Rightarrow> 'tk" where
  "reset_ticker rt deadline tk = (case deadline of None \<Rightarrow> tk | Some tick \<Rightarrow> reset_at rt tk tick)"

definition reset_tickers ::
  "('net, 'tk) runtime \<Rightarrow> ('one, 'tx, 'net, 'tk) loop_state \<Rightarrow> instant \<Rightarrow> ('one, 'tx, 'net, 'tk) loop_state run" where
  "reset_tickers rt s now =
     run_bind (poll_send_ping_timeout (binding s) now) (\<lambda>p.
     run_bind (poll_send_pong_timeout (binding s)) (\<lambda>q.
     run_bind (poll_keep_alive_timeout (binding s)) (\<lambda>k.
       Value (s\<lparr>send_ping_ticker := reset_ticker rt p (send_ping_ticker s),
                recv_ping_ticker := reset_ticker rt q (recv_ping_ticker s),
                recv_pong_ticker := reset_ticker rt k (recv_pong_ticker s)\<rparr>))))"

definition loop_head ::
  "('net, 'tk) runtime \<Rightarrow> ('one, 'tx, 'net, 'tk) loop_state \<Rightarrow> ('one, 'tx, 'net, 'tk) loop_state" where
  "loop_head rt s = (case transmit_all rt (binding s) (writer s) of (b, net) \<Rightarrow> s\<lparr>binding := b, writer := net\<rparr>)"

text \<open>
  The loop over what \<open>select!\<close> picks: each event with the time of the \<open>Instant::now()\<close> after it.
  It ends with the events (\<open>True\<close>: it would go on) or at \<open>break\<close>.
\<close>

fun run_loop ::
  "('w, 'tx, 'rx, 'one) tokio_sync \<Rightarrow> ('net, 'tk) runtime \<Rightarrow> ('one, 'tx, 'net, 'tk) loop_state \<Rightarrow>
   (('one, 'tk) arm \<times> instant) list \<Rightarrow> 'w \<Rightarrow> (bool \<times> ('one, 'tx, 'net, 'tk) loop_state \<times> 'w) run" where
  "run_loop io rt s [] w = Value (True, loop_head rt s, w)"
| "run_loop io rt s ((arm, now) # arms) w =
     run_bind (select_arm io (loop_head rt s) arm w) (\<lambda>(go_on, s', w').
       if go_on then run_bind (reset_tickers rt s' now) (\<lambda>s''. run_loop io rt s'' arms w')
       else Value (False, s', w'))"

text \<open>The state \<open>run\<close> starts the loop in.\<close>

definition loop_start :: "timeouts \<Rightarrow> 'net \<Rightarrow> 'tk \<Rightarrow> 'tk \<Rightarrow> 'tk \<Rightarrow> ('one, 'tx, 'net, 'tk) loop_state" where
  "loop_start t net ping pong keep =
     \<lparr>binding = new_binding t, writer = net, send_ping_ticker = ping, recv_ping_ticker = pong,
      recv_pong_ticker = keep\<rparr>"

subsection \<open>The user's handle\<close>

text \<open>
  The command channel (\<open>cmd_send\<close>: an awaited \<open>Sender::send\<close>, \<open>cmd_try_send\<close>: \<open>Sender::try_send\<close>,
  both with whether they return \<open>Ok\<close>), the oneshot channel of a reply, and the stream
  combinators of \<open>futures\<close> and \<open>tokio_stream\<close> the handle applies to a subscription's receiver.
\<close>

datatype 'a poll = Ready 'a | Pending

record ('w, 'chan, 'one, 'orx, 'rx, 'st) user_io =
  cmd_send :: "'chan \<Rightarrow> 'one connection_command \<Rightarrow> 'w \<Rightarrow> bool \<times> 'w"
  cmd_try_send :: "'chan \<Rightarrow> 'one connection_command \<Rightarrow> 'w \<Rightarrow> bool \<times> 'w"
  oneshot_channel :: "'w \<Rightarrow> ('one \<times> 'orx) \<times> 'w"
  receiver_stream :: "'rx \<Rightarrow> 'st"
  take_stream :: "nat \<Rightarrow> 'st \<Rightarrow> 'st"
  poll_stream :: "'st \<Rightarrow> 'w \<Rightarrow> message option poll \<times> 'st \<times> 'w"

record 'chan user_handle =
  handle_chan :: 'chan

record ('chan, 'st) subscriber =
  subscriber_sid :: rstring
  subscriber_messages :: 'st
  subscriber_conn_chan :: 'chan

text \<open>
  \<open>NatsOverTcp::run\<close>: the handle is sent to the caller (\<open>handle_send\<close>: \<open>oneshot::Sender::send\<close>,
  with whether it returns \<open>Ok\<close>), whose absence panics, and the loop starts.
\<close>

definition run_client ::
  "('w, 'tx, 'rx, 'one) tokio_sync \<Rightarrow> ('net, 'tk) runtime \<Rightarrow> ('chan user_handle \<Rightarrow> 'w \<Rightarrow> bool \<times> 'w) \<Rightarrow>
   timeouts \<Rightarrow> 'net \<Rightarrow> 'tk \<times> 'tk \<times> 'tk \<Rightarrow> 'chan \<Rightarrow> (('one, 'tk) arm \<times> instant) list \<Rightarrow> 'w \<Rightarrow>
   (bool \<times> ('one, 'tx, 'net, 'tk) loop_state \<times> 'w) run" where
  "run_client io rt handle_send t net tickers sender arms w =
     (case tickers of (ping, pong, keep) \<Rightarrow>
        run_bind (unwrap_ok (handle_send \<lparr>handle_chan = sender\<rparr> w))
          (\<lambda>w'. run_loop io rt (loop_start t net ping pong keep) arms w'))"

text \<open>
  \<open>UserHandle::subscribe\<close> up to the \<open>await\<close> of the reply, and from it: the reply is \<open>None\<close> when
  the other side has dropped the sender.
\<close>

definition subscribe_request ::
  "('w, 'chan, 'one, 'orx, 'rx, 'st) user_io \<Rightarrow> 'chan user_handle \<Rightarrow> rstring \<Rightarrow> subscription_options \<Rightarrow>
   'w \<Rightarrow> 'orx \<times> 'w" where
  "subscribe_request u h subject options w =
     (case oneshot_channel u w of ((sender, receiver), w1) \<Rightarrow>
        (case cmd_send u (handle_chan h) (Subscribe subject options sender) w1 of (_, w2) \<Rightarrow> (receiver, w2)))"

definition subscribe_finish ::
  "('w, 'chan, 'one, 'orx, 'rx, 'st) user_io \<Rightarrow> 'chan user_handle \<Rightarrow> 'rx subscribe_response option \<Rightarrow>
   ('chan, 'st) subscriber run" where
  "subscribe_finish u h reply =
     (case reply of
        None \<Rightarrow> Panic
      | Some resp \<Rightarrow>
          (let messages = (case resp_max_msgs resp of
               Some limit \<Rightarrow> take_stream u (unat (nz_get limit)) (receiver_stream u (resp_msg_chan resp))
             | None \<Rightarrow> receiver_stream u (resp_msg_chan resp))
           in Value \<lparr>subscriber_sid = resp_sid resp, subscriber_messages = messages,
                     subscriber_conn_chan = handle_chan h\<rparr>))"

definition user_publish ::
  "('w, 'chan, 'one, 'orx, 'rx, 'st) user_io \<Rightarrow> 'chan user_handle \<Rightarrow> rstring \<Rightarrow> buf \<Rightarrow> 'w \<Rightarrow> 'w run" where
  "user_publish u h subject message w = unwrap_ok (cmd_send u (handle_chan h) (Publish subject message) w)"

text \<open>\<open>UserHandle::close\<close>: its body is commented out.\<close>

definition user_close :: "'chan user_handle \<Rightarrow> 'w \<Rightarrow> 'w" where
  "user_close h w = w"

text \<open>\<open>Drop\<close> and \<open>Stream\<close> of \<open>Subscriber\<close>.\<close>

definition subscriber_drop ::
  "('w, 'chan, 'one, 'orx, 'rx, 'st) user_io \<Rightarrow> ('chan, 'st) subscriber \<Rightarrow> 'w \<Rightarrow> 'w run" where
  "subscriber_drop u s w =
     unwrap_ok (cmd_try_send u (subscriber_conn_chan s) (Unsubscribe (subscriber_sid s) None) w)"

definition subscriber_poll_next ::
  "('w, 'chan, 'one, 'orx, 'rx, 'st) user_io \<Rightarrow> ('chan, 'st) subscriber \<Rightarrow> 'w \<Rightarrow>
   message option poll \<times> ('chan, 'st) subscriber \<times> 'w" where
  "subscriber_poll_next u s w =
     (case poll_stream u (subscriber_messages s) w of
        (p, st, w') \<Rightarrow> (p, s\<lparr>subscriber_messages := st\<rparr>, w'))"

subsection \<open>The loop runs the binding\<close>

text \<open>What the arms do to the binding, as events; the arms after the end of the stream do nothing.\<close>

fun arm_events :: "('one, 'tk) arm \<Rightarrow> 'one event list" where
  "arm_events (Send_ping_tick time tk) = [Send_ping_timeout time]"
| "arm_events (Recv_ping_tick time tk) = [Send_pong_timeout time]"
| "arm_events (Recv_pong_tick time tk) = [Keep_alive_timeout time]"
| "arm_events (Command_received c now) = [Client_input c now]"
| "arm_events (Frame (Some (Inr c)) now) = [Server_input c now]"
| "arm_events (Frame _ now) = []"

definition end_of_stream :: "('one, 'tk) arm \<Rightarrow> bool" where
  "end_of_stream a \<longleftrightarrow> (\<exists>now. a = Frame None now)"

fun is_transmit :: "'one event \<Rightarrow> bool" where
  "is_transmit (Transmit c) = True"
| "is_transmit _ = False"

lemma run_append:
  "binding_run io y es' z \<Longrightarrow> binding_run io x es y \<Longrightarrow> binding_run io x (es @ es') z"
proof (induction rule: binding_run.induct)
  case (run_snoc y es1 u e z)
  then show ?case using binding_run.run_snoc [of io x "es @ es1" u e z] by simp
qed simp

lemma transmit_all_run:
  "transmit_all rt b net = (b', net') \<Longrightarrow>
   \<exists>es. binding_run io (b, w) es (b', w) \<and> list_all is_transmit es \<and> polled es = queued b \<and>
     net' = fold (writer_send rt) (queued b) net \<and> queued b' = []"
proof (induction rt b net rule: transmit_all.induct)
  case (1 rt b net)
  obtain c b1 where p: "poll_transmit b = (c, b1)" by force
  show ?case
  proof (cases c)
    case None
    with 1(2) p have "b' = b1" "net' = net" by (simp_all add: transmit_all.simps [of rt b])
    moreover have "b1 = b" "queued b = []"
      using p None by (auto simp: poll_transmit_def queued_def split: conn_state.splits list.splits)
    ultimately show ?thesis by (intro exI [of _ "[]"]) (simp add: run_Nil)
  next
    case (Some t)
    with 1(2) p have n: "transmit_all rt b1 (writer_send rt t net) = (b', net')"
      by (simp add: transmit_all.simps [of rt b])
    have q: "queued b = t # queued b1"
      using p Some by (auto simp: poll_transmit_def queued_def split: conn_state.splits list.splits)
    from 1(1) [OF p [unfolded Some, symmetric] refl n] obtain es where
      es: "binding_run io (b1, w) es (b', w)" "list_all is_transmit es" "polled es = queued b1"
        "net' = fold (writer_send rt) (queued b1) (writer_send rt t net)" "queued b' = []" by blast
    have "binding_run io (b, w) (Transmit (Some t) # es) (b', w)"
      using p Some by (intro run_Cons [OF es(1)]) simp
    with es q show ?thesis by (intro exI [of _ "Transmit (Some t) # es"]) simp
  qed
qed

lemma select_arm_run:
  assumes "select_arm io s a w = Value (go, s', w')"
  shows "binding_run io (binding s, w) (arm_events a) (binding s', w') \<and> writer s' = writer s \<and>
    polled (arm_events a) = [] \<and> go = (\<not> end_of_stream a) \<and> \<not> list_ex is_transmit (arm_events a)"
proof -
  have one: "binding_step io x e y \<Longrightarrow> binding_run io x [e] y" for x e y
    by (rule run_Cons [OF run_Nil])
  show ?thesis
    using assms
    by (cases "(io, s, a, w)" rule: select_arm.cases)
      (auto simp: end_of_stream_def run_Nil intro!: one simp del: binding_step_simps
        intro: binding_step.intros)
qed

lemma loop_head_run:
  "\<exists>es. binding_run io (binding s, w) es (binding (loop_head rt s), w) \<and> list_all is_transmit es \<and>
     polled es = queued (binding s) \<and> writer (loop_head rt s) = fold (writer_send rt) (queued (binding s)) (writer s) \<and>
     queued (binding (loop_head rt s)) = []"
  using transmit_all_run [of rt "binding s" "writer s" _ _ io w]
  by (fastforce simp: loop_head_def split: prod.splits)

text \<open>Transmitting alone keeps an established connection established.\<close>

lemma transmit_only_run:
  assumes "binding_run io (b, w) es y" "list_all is_transmit es" "conn_state b = InfoReceived r"
  shows "timeouts (fst y) = timeouts b \<and> (\<exists>r'. conn_state (fst y) = InfoReceived r' \<and>
    keep_alive r' = keep_alive r \<and> sid2subscriber r' = sid2subscriber r)"
  using assms
proof (induction "(b, w)" es y rule: binding_run.induct)
  case (run_snoc es y e z)
  then obtain b1 w1 c where y: "y = (b1, w1)" "e = Transmit c"
    by (cases y; cases e) auto
  with run_snoc show ?case
    by (cases z) (auto simp: poll_transmit_def split: conn_state.splits list.splits)
qed simp

lemma loop_head_keeps:
  assumes "conn_state (binding s) = InfoReceived r"
  shows "\<exists>r'. conn_state (binding (loop_head rt s)) = InfoReceived r' \<and>
    timeouts (binding (loop_head rt s)) = timeouts (binding s) \<and> keep_alive r' = keep_alive r \<and>
    sid2subscriber r' = sid2subscriber r"
proof -
  obtain es where "binding_run undefined (binding s, ()) es (binding (loop_head rt s), ())" "list_all is_transmit es"
    using loop_head_run [of undefined s "()" rt] by blast
  from transmit_only_run [OF this assms] show ?thesis by simp
qed

lemma reset_tickers_keeps:
  "reset_tickers rt s now = Value s' \<Longrightarrow> binding s' = binding s \<and> writer s' = writer s"
  by (auto simp: reset_tickers_def)

lemma reset_tickers_overflow:
  "poll_keep_alive_timeout (binding s) = Panic \<Longrightarrow> reset_tickers rt s now = Panic"
  by (simp add: reset_tickers_def)

lemma not_transmit_filter:
  "list_all is_transmit es \<Longrightarrow> filter (\<lambda>e. \<not> is_transmit e) es = []"
  "\<not> list_ex is_transmit es' \<Longrightarrow> filter (\<lambda>e. \<not> is_transmit e) es' = es'"
  by (auto simp: list_all_iff list_ex_iff filter_empty_conv filter_id_conv)

text \<open>
  The arms a loop gets to: all up to the end of the stream.
\<close>

definition live_arms :: "(('one, 'tk) arm \<times> instant) list \<Rightarrow> 'one event list" where
  "live_arms arms = concat (map (\<lambda>(a, _). arm_events a) (takeWhile (\<lambda>(a, _). \<not> end_of_stream a) arms))"

lemma run_loop_run:
  "run_loop io rt s arms w = Value (go, s', w') \<Longrightarrow>
   \<exists>es. binding_run io (binding s, w) es (binding s', w') \<and>
     filter (\<lambda>e. \<not> is_transmit e) es = live_arms arms \<and>
     writer s' = fold (writer_send rt) (polled es) (writer s) \<and>
     queued (binding s') = [] \<and> go = (\<forall>(a, _) \<in> set arms. \<not> end_of_stream a)"
proof (induction io rt s arms w rule: run_loop.induct)
  case (1 io rt s w)
  then have s': "s' = loop_head rt s" "w' = w" "go" by auto
  with loop_head_run [of io s w rt] show ?case
    by (auto simp: live_arms_def not_transmit_filter)
next
  case (2 io rt s a now arms w)
  obtain es0 where es0: "binding_run io (binding s, w) es0 (binding (loop_head rt s), w)"
    "list_all is_transmit es0" "polled es0 = queued (binding s)"
    "writer (loop_head rt s) = fold (writer_send rt) (queued (binding s)) (writer s)"
    "queued (binding (loop_head rt s)) = []"
    using loop_head_run [of io s w rt] by blast
  obtain go1 s1 w1 where arm: "select_arm io (loop_head rt s) a w = Value (go1, s1, w1)"
    using "2.prems" by (auto split: if_splits)
  note a = select_arm_run [OF arm]
  have es1: "binding_run io (binding s, w) (es0 @ arm_events a) (binding s1, w1)"
    using run_append a es0(1) by blast
  show ?case
  proof (cases go1)
    case False
    then have r: "s' = s1" "w' = w1" "\<not> go" using "2.prems" arm by auto
    from False a have e: "end_of_stream a" by simp
    then have "arm_events a = []" by (auto simp: end_of_stream_def)
    moreover have "binding s1 = binding (loop_head rt s)" using arm e by (auto simp: end_of_stream_def)
    ultimately show ?thesis using es0 es1 r a e
      by (intro exI [of _ es0]) (auto simp: live_arms_def not_transmit_filter)
  next
    case True
    then obtain s2 where s2: "reset_tickers rt s1 now = Value s2" "run_loop io rt s2 arms w1 = Value (go, s', w')"
      using "2.prems" arm by auto
    from "2.IH" [OF True s2(2)] obtain es where
      es: "binding_run io (binding s2, w1) es (binding s', w')"
        "filter (\<lambda>e. \<not> is_transmit e) es = live_arms arms"
        "writer s' = fold (writer_send rt) (polled es) (writer s2)"
        "queued (binding s') = []" "go = (\<forall>(a, _) \<in> set arms. \<not> end_of_stream a)" by blast
    have "binding_run io (binding s, w) ((es0 @ arm_events a) @ es) (binding s', w')"
      using run_append [OF _ es1] es(1) reset_tickers_keeps [OF s2(1)] by simp
    with es es0 a True reset_tickers_keeps [OF s2(1)] show ?thesis
      by (intro exI [of _ "(es0 @ arm_events a) @ es"]) (simp add: live_arms_def not_transmit_filter)
  qed
qed

end
