(* ===== verification/Crates.thy ===== *)
theory Crates
  imports Nats_Types
begin

text \<open>
  The third-party code the codec calls, as parameters: \<open>memchr\<close> (substring and byte search),
  \<open>bytes\<close> (advancing a \<open>BytesMut\<close>, writing to it through its \<open>Writer\<close>) and \<open>serde_json\<close>, and
  the one standard-library result that is not determined, the iteration order of a \<open>HashMap\<close>.
  Every model function takes a record of them. The predicates \<open>memchr_ok\<close>, \<open>bytes_ok\<close>,
  \<open>hash_ok\<close>, \<open>json_connect_ok\<close> and \<open>json_strings_ok\<close> state the documented behaviour the theorems rest on, and
  \<open>ref_crates\<close> is a concrete instance of them for the witnesses.

  The buffer type \<open>BytesMut\<close> is its content; \<open>reserve\<close> changes its capacity only and has no
  counterpart.
\<close>

record crates =
  memmem_find :: "buf \<Rightarrow> buf \<Rightarrow> nat option"
  memmem_find_iter :: "buf \<Rightarrow> buf \<Rightarrow> nat list"
  memchr_iter :: "u8 \<Rightarrow> buf \<Rightarrow> nat list"
  buf_advance :: "buf \<Rightarrow> nat \<Rightarrow> buf run"
  writer_write_all :: "buf \<Rightarrow> buf \<Rightarrow> buf \<times> io_error option"
  json_info :: "buf \<Rightarrow> info option"
  json_connect :: "buf \<Rightarrow> connect option"
  json_to_writer :: "buf \<Rightarrow> connect \<Rightarrow> buf \<times> io_error option"
  hash_iter :: "header_map \<Rightarrow> (header_name \<times> header_value list) list"

text \<open>
  \<open>memmem::find\<close> returns the first position of the needle, \<open>memmem::find_iter\<close> all positions
  of a needle that cannot overlap itself (the code only searches CR LF), in increasing order,
  and \<open>memchr_iter\<close> all positions of a byte in increasing order.
\<close>

definition memchr_ok :: "crates \<Rightarrow> bool" where
  "memchr_ok d \<longleftrightarrow>
     (\<forall>hay. memmem_find d hay CRLF = List.find (occurs_at hay CRLF) [0..<length hay]) \<and>
     (\<forall>hay. memmem_find_iter d hay CRLF = filter (occurs_at hay CRLF) [0..<length hay]) \<and>
     (\<forall>b hay. memchr_iter d b hay = filter (\<lambda>i. hay ! i = b) [0..<length hay])"

text \<open>
  \<open>Buf::advance\<close> drops bytes from the front and panics past the end; a write to a \<open>BytesMut\<close>
  appends and does not fail.
\<close>

definition bytes_ok :: "crates \<Rightarrow> bool" where
  "bytes_ok d \<longleftrightarrow>
     (\<forall>b n. buf_advance d b n = (if n \<le> length b then Value (drop n b) else Panic)) \<and>
     (\<forall>dst b. writer_write_all d dst b = (dst @ b, None))"

text \<open>A \<open>HashMap\<close> iterates over each of its entries once, in some order.\<close>

definition hash_ok :: "crates \<Rightarrow> header_map \<Rightarrow> bool" where
  "hash_ok d h \<longleftrightarrow> distinct (map fst (hash_iter d h)) \<and> map_of (hash_iter d h) = h"

text \<open>
  \<open>serde_json\<close> writes a \<open>Connect\<close> as JSON text without a raw CR LF (control characters are
  escaped) that it reads back.
\<close>

definition json_connect_ok :: "crates \<Rightarrow> connect \<Rightarrow> buf \<Rightarrow> bool" where
  "json_connect_ok d c js \<longleftrightarrow>
     (\<forall>dst. json_to_writer d dst c = (dst @ js, None)) \<and> json_connect d js = Some c \<and>
     (\<forall>i. \<not> occurs_at js CRLF i)"

text \<open>
  The values \<open>serde_json\<close> returns are Rust values, so their \<open>String\<close> fields are UTF-8: it checks
  the text it is given and encodes the escapes in it.
\<close>

definition json_strings_ok :: "crates \<Rightarrow> bool" where
  "json_strings_ok d \<longleftrightarrow>
     (\<forall>b i. json_info d b = Some i \<longrightarrow> utf8_info i) \<and> (\<forall>b c. json_connect d b = Some c \<longrightarrow> utf8_connect c)"

subsection \<open>A concrete instance\<close>

text \<open>
  The instance for the witnesses searches by scanning, keeps buffers as lists and knows one
  \<open>Connect\<close> and one \<open>Info\<close> document; header maps are iterated over a given list of entries.
\<close>

definition ref_crates ::
  "(header_name \<times> header_value list) list \<Rightarrow> buf \<Rightarrow> connect \<Rightarrow> buf \<Rightarrow> info \<Rightarrow> crates" where
  "ref_crates es cjs c ijs nfo =
     \<lparr>memmem_find = (\<lambda>hay nd. List.find (occurs_at hay nd) [0..<length hay]),
      memmem_find_iter = (\<lambda>hay nd. filter (occurs_at hay nd) [0..<length hay]),
      memchr_iter = (\<lambda>b hay. filter (\<lambda>i. hay ! i = b) [0..<length hay]),
      buf_advance = (\<lambda>b n. if n \<le> length b then Value (drop n b) else Panic),
      writer_write_all = (\<lambda>dst b. (dst @ b, None)),
      json_info = (\<lambda>b. if b = ijs then Some nfo else None),
      json_connect = (\<lambda>b. if b = cjs then Some c else None),
      json_to_writer = (\<lambda>dst _. (dst @ cjs, None)),
      hash_iter = (\<lambda>_. es)\<rparr>"

definition ref_info :: info where
  "ref_info =
     \<lparr>info_server_id = ''S'', info_server_name = ''n'', info_version = ''2.10'', info_go = ''go'',
      info_host = ''0.0.0.0'', info_port = 4222, info_headers = True, info_max_payload = 1048576,
      info_proto = 1, info_client_id = None, info_auth_required = None, info_tls_required = None,
      info_tls_verify = None, info_tls_available = None, info_connect_urls = None,
      info_ws_connect_urls = None, info_ldm = None, info_git_commit = None,
      info_jetstream = None, info_ip = None, info_client_ip = None, info_nonce = None,
      info_cluster = None, info_domain = None\<rparr>"

definition ref_connect :: connect where
  "ref_connect =
     \<lparr>con_verbose = False, con_pedantic = False, con_tls_required = False,
      con_auth_token = None, con_user = None, con_pass = None, con_name = None,
      con_lang = ''go'', con_version = ''1'', con_protocol = None, con_echo = None,
      con_sig = None, con_jwt = None, con_no_responders = None, con_headers = None,
      con_nkey = None\<rparr>"

definition ref_connect_json :: buf where
  "ref_connect_json =
     ''{\"verbose\":false,\"pedantic\":false,\"tls_required\":false,\"lang\":\"go\",\"version\":\"1\"}''"

abbreviation ref_deps :: crates where
  "ref_deps \<equiv> ref_crates [] ref_connect_json ref_connect ''{\"server_id\":\"S\"}'' ref_info"

lemma memchr_ok_ref [simp]: "memchr_ok (ref_crates es cjs c ijs nfo)"
  by (simp add: memchr_ok_def ref_crates_def)

lemma bytes_ok_ref [simp]: "bytes_ok (ref_crates es cjs c ijs nfo)"
  by (simp add: bytes_ok_def ref_crates_def)

lemma json_strings_ok_ref: "utf8_info i \<Longrightarrow> utf8_connect c \<Longrightarrow> json_strings_ok (ref_crates es cjs c ijs i)"
  by (simp add: json_strings_ok_def ref_crates_def)

lemma ref_strings [simp]: "utf8_info ref_info" "utf8_connect ref_connect"
  by (simp_all add: utf8_info_def ref_info_def utf8_connect_def ref_connect_def utf8_all_def
      utf8_valid_ascii byte_val_def)

lemma hash_ok_ref:
  "distinct (map fst es) \<Longrightarrow> map_of es = h \<Longrightarrow> hash_ok (ref_crates es cjs c ijs nfo) h"
  by (simp add: hash_ok_def ref_crates_def)

subsection \<open>What the predicates give\<close>

lemma buf_advance_ok [simp]:
  "bytes_ok d \<Longrightarrow> buf_advance d b n = (if n \<le> length b then Value (drop n b) else Panic)"
  unfolding bytes_ok_def by blast

lemma write_all_ok [simp]: "bytes_ok d \<Longrightarrow> writer_write_all d dst b = (dst @ b, None)"
  unfolding bytes_ok_def by blast

lemma memmem_find_ok:
  "memchr_ok d \<Longrightarrow> memmem_find d hay CRLF = List.find (occurs_at hay CRLF) [0..<length hay]"
  unfolding memchr_ok_def by blast

lemma memmem_find_iter_ok:
  "memchr_ok d \<Longrightarrow> memmem_find_iter d hay CRLF = filter (occurs_at hay CRLF) [0..<length hay]"
  unfolding memchr_ok_def by blast

lemma memchr_iter_ok:
  "memchr_ok d \<Longrightarrow> memchr_iter d b hay = filter (\<lambda>i. hay ! i = b) [0..<length hay]"
  unfolding memchr_ok_def by blast

lemma json_connect_okD:
  assumes "json_connect_ok d c js"
  shows "json_to_writer d dst c = (dst @ js, None)" "json_connect d js = Some c"
    "\<not> occurs_at js CRLF i"
  using assms by (auto simp: json_connect_ok_def)

end
