(* ===== verification/Binding_Claims.thy ===== *)
theory Binding_Claims
  imports Binding_Properties Crates
begin

text \<open>
  The properties of \<open>NatsBinding\<close>, each a few steps over the facts of \<open>Binding_Runs\<close>,
  \<open>Keep_Alive\<close> and \<open>Binding_Properties\<close>, with witnesses that run a binding on \<open>ref_sync\<close>.
\<close>

subsection \<open>Sample connections\<close>

definition sample_timeouts :: timeouts where
  "sample_timeouts = \<lparr>ping_interval = 2, pong_delay = 1, keep_alive_limit = 3\<rparr>"

definition sample_options :: subscription_options where
  "sample_options = \<lparr>opt_max_msgs = None, opt_queue_group = None\<rparr>"

lemmas binding_eval = new_binding_def handle_server_input_def handle_client_input_def change_state_def
  poll_transmit_def handle_send_ping_timeout_def handle_send_pong_timeout_def handle_keep_alive_timeout_def
  poll_send_ping_timeout_def poll_send_pong_timeout_def poll_keep_alive_timeout_def
  established_def duration_since_def sample_timeouts_def sample_options_def ref_world0_def Let_def

abbreviation sample_start :: "(nat, nat) nats_binding \<times> ref_world" where
  "sample_start \<equiv> (new_binding sample_timeouts, ref_world0)"

definition sample_events :: "nat event list" where
  "sample_events =
     [Client_input (Subscribe ''a'' sample_options 7) 0, Server_input (S_Info ref_info) 1,
      Transmit (Some (C_Connect hello_connect)),
      Transmit (Some (C_Subscribe \<lparr>sub_subject = ''a'', sub_queue_group = None, sub_sid = ''1''\<rparr>)),
      Send_ping_timeout 1]"

text \<open>The connection after these events: one subscriber, one \<open>PING\<close> to send.\<close>

definition sample_info_received :: "nat info_received" where
  "sample_info_received =
     \<lparr>buffered_transmits = [C_Ping],
      keep_alive = \<lparr>last_ping_sent_at = Some 1, last_ping_received_at = None, last_pong_received_at = None\<rparr>,
      sid_generator = 2, sid2subscriber = [''1'' \<mapsto> 0]\<rparr>"

definition sample_binding :: "(nat, nat) nats_binding" where
  "sample_binding = \<lparr>conn_state = InfoReceived sample_info_received, timeouts = sample_timeouts\<rparr>"

definition sample_world :: ref_world where
  "sample_world = \<lparr>rw_chans = [(1024, [])],
     rw_replies = [(7, \<lparr>resp_sid = ''1'', resp_max_msgs = None, resp_msg_chan = 0\<rparr>)]\<rparr>"

lemma sid_one [simp]: "u64_to_string 1 = ''1''"
proof -
  have "digit_char 1 = CHR ''1''" by code_simp
  then show ?thesis by (simp add: u64_to_string_def show_nat.simps)
qed

lemma sample_run: "binding_run ref_sync sample_start sample_events (sample_binding, sample_world)"
  by (rule exec_events_run)
    (simp add: sample_events_def binding_eval ref_sync_def sample_binding_def sample_info_received_def
      sample_world_def fun_upd_def fun_eq_iff)

subsection \<open>Properties\<close>

text \<open>C7: Commands the user issues before \<open>INFO\<close> arrives have exactly the effect they would have had
  right after it: feeding them first and \<open>INFO\<close> then, or \<open>INFO\<close> first and then the commands, gives
  the same connection and the same channels, or panics in both orders.\<close>

theorem early_commands_are_replayed:
  "run_bind (client_inputs io (new_binding t) cs w) (\<lambda>(b, w'). handle_server_input io b (S_Info i) now w') =
   run_bind (handle_server_input io (new_binding t) (S_Info i) now w) (\<lambda>(b, w'). client_inputs io b cs w')"
  by (rule replay_direct)

text \<open>C10: Whatever a connection's owner does, the first command it is given to transmit is the fixed
  \<open>CONNECT\<close>, and it is given no other \<open>CONNECT\<close> ever.\<close>

theorem connect_is_sent_first_and_once:
  assumes "binding_run io (new_binding t, w) es y"
  shows "polled es = [] \<or>
    (\<exists>rest. polled es = C_Connect hello_connect # rest \<and> (\<forall>x. C_Connect x \<notin> set rest))"
  using run_connected [OF assms] connect_first_prefix
  unfolding connected_history_def connect_first_def [symmetric] by blast

theorem connect_is_sent_first_and_once_witness:
  "\<exists>rest. polled sample_events = C_Connect hello_connect # rest \<and> (\<forall>x. C_Connect x \<notin> set rest)"
  using connect_is_sent_first_and_once [OF sample_run] by (auto simp: sample_events_def)

text \<open>C28: The subscription ids a connection transmits are 1, 2, 3 and so on in decimal, in this order
  and without gaps; as long as there are fewer than \<open>2 ^ 64\<close> of them they are distinct.\<close>

theorem subscription_ids_count_up:
  assumes "binding_run io (new_binding t, w) es y"
  shows "subscribe_sids (polled es) =
      map (\<lambda>i. u64_to_string (of_nat i)) [1..<Suc (length (subscribe_sids (polled es)))] \<and>
    (length (subscribe_sids (polled es)) < 2 ^ 64 \<longrightarrow> distinct (subscribe_sids (polled es)))"
proof -
  obtain k where "subscribe_sids (polled es) @ subscribe_sids (queued (fst y)) = sids_upto k"
    using run_counted [OF assms] by (auto simp: counted_history_def)
  from sids_upto_prefix [OF this]
  have e: "subscribe_sids (polled es) = sids_upto (length (subscribe_sids (polled es)))" .
  with distinct_sids_upto show ?thesis unfolding sids_upto_def by metis
qed

theorem subscription_ids_count_up_witness: "subscribe_sids (polled sample_events) = [''1'']"
  using subscription_ids_count_up [OF sample_run] by (simp add: sample_events_def)

text \<open>C11: A new subscription never takes over another's channel: in every state a connection reaches
  with fewer than \<open>2 ^ 64 - 2\<close> subscriptions behind it, the id the next subscription will get is not
  registered, so that inserting it displaces no subscriber.\<close>

theorem subscriptions_displace_nobody:
  assumes "binding_run io (new_binding t, w) es (b, w')" "conn_state b = InfoReceived r"
    and "length (subscribe_sids (polled es @ queued b)) < 2 ^ 64 - 2"
  shows "sid2subscriber r (u64_to_string (sid_generator r)) = None"
  using run_issued [OF assms(1)] assms(2,3) sids_issued_fresh by (auto simp: issued_history_def)

theorem subscriptions_displace_nobody_witness: "sid2subscriber sample_info_received (u64_to_string 2) = None"
  using subscriptions_displace_nobody [OF sample_run, of sample_info_received]
  by (simp add: sample_binding_def queued_def sample_events_def) (simp add: sample_info_received_def)

text \<open>C9: Messages reach their subscribers: for any batch of server commands without \<open>HMSG\<close>, if the
  channel of every subscriber addressed still has its receiver and room for all its messages, then
  afterwards each channel holds, behind what it held, exactly the messages with its subscription id,
  in the order they came, and nothing else of the registry or the transmit queue has changed;
  otherwise handling the batch panics (one subscriber that is gone or does not read is enough).\<close>

theorem messages_reach_their_subscribers:
  assumes "mpsc_ok io v" "conn_state b = InfoReceived r" "no_hmsg cs"
  shows "if fits v w (delivered r cs)
     then \<exists>b' w' r'. server_inputs io b cs w = Value (b', w') \<and> conn_state b' = InfoReceived r' \<and>
       sid2subscriber r' = sid2subscriber r \<and> buffered_transmits r' = buffered_transmits r \<and>
       (\<forall>tx. queue_of v w' tx = queue_of v w tx @ delivered r cs tx)
     else server_inputs io b cs w = Panic"
  by (rule server_inputs_delivered [OF assms])

definition hello_msg :: msg where
  "hello_msg = \<lparr>msg_subject = ''a'', msg_sid = ''1'', msg_reply_to = None, msg_bytes = 2, msg_payload = ''hi''\<rparr>"

theorem messages_reach_their_subscribers_witness:
  "(\<exists>b' w'. server_inputs ref_sync sample_binding [(S_Msg hello_msg, 3)] sample_world = Value (b', w') \<and>
     queue_of ref_view w' 0 = [message_of_msg hello_msg]) \<and>
   server_inputs ref_sync sample_binding (replicate 1025 (S_Msg hello_msg, 3)) sample_world = Panic"
proof -
  have s: "conn_state sample_binding = InfoReceived sample_info_received" by (simp add: sample_binding_def)
  have d: "delivered sample_info_received (replicate n (S_Msg hello_msg, 3)) tx =
      (if tx = 0 then replicate n (message_of_msg hello_msg) else [])" for n tx
    by (induction n) (auto simp: sample_info_received_def hello_msg_def)
  have nh: "no_hmsg (replicate n (S_Msg hello_msg, 3))" for n by (auto simp: no_hmsg_def)
  have f: "fits ref_view sample_world (delivered sample_info_received (replicate n (S_Msg hello_msg, 3)))
      \<longleftrightarrow> n \<le> 1024" for n
    by (auto simp: fits_def d ref_view_def sample_world_def)
  have q: "queue_of ref_view sample_world tx = []" for tx
    by (simp add: ref_view_def sample_world_def)
  show ?thesis
    using messages_reach_their_subscribers [OF mpsc_ok_ref s nh [of 1], of sample_world]
      messages_reach_their_subscribers [OF mpsc_ok_ref s nh [of 1025], of sample_world]
    unfolding f d q by auto
qed

text \<open>C16: The deadlines the owner is told to sleep on are the right ones: for each of the three timers,
  with a positive period and the clock in range, calling the handler changes the connection exactly
  when the deadline the poll function reports has been reached.\<close>

theorem timers_act_when_due:
  assumes "0 < ping_interval (timeouts b)" "0 < pong_delay (timeouts b)" "0 < keep_alive_limit (timeouts b)"
    and "now < INSTANT_LIMIT"
  shows "(handle_send_ping_timeout b now \<noteq> b \<longleftrightarrow> (\<exists>t \<le> now. poll_send_ping_timeout b now = Value (Some t))) \<and>
    (handle_send_pong_timeout b now \<noteq> b \<longleftrightarrow> (\<exists>t \<le> now. poll_send_pong_timeout b = Value (Some t))) \<and>
    (handle_keep_alive_timeout b now \<noteq> b \<longleftrightarrow> (\<exists>t \<le> now. poll_keep_alive_timeout b = Value (Some t)))"
  using ping_timer.acts_iff_due [OF assms(1,4)] pong_timer.acts_iff_due [OF assms(2,4)]
    keep_alive_timer.acts_iff_due [OF assms(3,4)] by blast

theorem timers_act_when_due_witness:
  "handle_send_ping_timeout sample_binding 2 = sample_binding \<and>
   handle_send_ping_timeout sample_binding 3 \<noteq> sample_binding"
  using timers_act_when_due [of sample_binding 2] timers_act_when_due [of sample_binding 3]
  by (simp add: poll_send_ping_timeout_def sample_binding_def sample_info_received_def sample_timeouts_def
      INSTANT_LIMIT_def)



text \<open>C14: \<open>PING\<close>s are at least an interval apart: after the handler has queued one at time \<open>s\<close>, nothing
  the owner does adds another to what has been and will be transmitted until the handler is called
  with a time that is an interval or more after \<open>s\<close>.\<close>

theorem pings_are_spaced:
  assumes "handle_send_ping_timeout b s \<noteq> b"
    and "binding_run io (handle_send_ping_timeout b s, w) es (b', w')"
    and "\<forall>now. Send_ping_timeout now \<in> set es \<longrightarrow> duration_since now s < ping_interval (timeouts b)"
  shows "count_list (polled es @ queued b') C_Ping \<le> count_list (queued (handle_send_ping_timeout b s)) C_Ping"
proof -
  let ?b = "handle_send_ping_timeout b s"
  have "timeouts (fst (b', w')) = timeouts b \<and>
    ((\<forall>now. Send_ping_timeout now \<in> set es \<longrightarrow> duration_since now s < ping_interval (timeouts b)) \<longrightarrow>
      quiet s (count_list (queued ?b) C_Ping) es (b', w'))"
    using assms(2)
  proof (rule run_invariant [where I = "\<lambda>es y. timeouts (fst y) = timeouts b \<and>
    ((\<forall>now. Send_ping_timeout now \<in> set es \<longrightarrow> duration_since now s < ping_interval (timeouts b)) \<longrightarrow>
      quiet s (count_list (queued ?b) C_Ping) es y)"], goal_cases)
    case 1
    show ?case
      using assms(1)
      by (auto simp: quiet_def handle_send_ping_timeout_def split: conn_state.splits option.splits if_splits)
  next
    case (2 es b1 w1 e b2 w2)
    have "timeouts b2 = timeouts b1"
      using established_step [OF 2(2)] other_step [OF 2(2)] by blast
    with 2 quiet_step [OF _ 2(2), of s _ es] show ?case by auto
  qed
  with assms(3) show ?thesis by (simp add: quiet_def)
qed

theorem pings_are_spaced_witness:
  "count_list (polled [Send_ping_timeout 4, Transmit (Some C_Ping)] @
     queued (snd (poll_transmit (handle_send_ping_timeout sample_binding 3)))) C_Ping \<le> 2"
proof -
  let ?b = "handle_send_ping_timeout sample_binding 3"
  have r: "binding_run ref_sync (?b, sample_world) [Send_ping_timeout 4, Transmit (Some C_Ping)]
      (snd (poll_transmit ?b), sample_world)"
    by (rule exec_events_run) (simp add: binding_eval sample_binding_def sample_info_received_def)
  have n: "?b \<noteq> sample_binding" and q: "count_list (queued ?b) C_Ping = 2"
    by (simp_all add: binding_eval sample_binding_def sample_info_received_def queued_def)
  show ?thesis
    using pings_are_spaced [OF n r] unfolding q
    by (simp add: duration_since_def sample_binding_def sample_timeouts_def)
qed

text \<open>C19: A connection counts as lost only after a \<open>PONG\<close>: in every run that ends in
  \<open>ConnectionLost\<close> the keep-alive handler was called at a time at least the keep-alive limit
  after the last \<open>PONG\<close> received until then. In particular a server that never answers a single
  \<open>PING\<close> is never noticed.\<close>

theorem lost_only_after_a_pong:
  assumes "binding_run io (new_binding t, w) es (b, w')" "conn_state b = ConnectionLost"
  shows "\<exists>es1 now es2 pong. es = es1 @ Keep_alive_timeout now # es2 \<and> last_pong es1 = Some pong \<and>
    keep_alive_limit t \<le> duration_since now pong"
  using run_pong_history [OF assms(1)] run_timeouts [OF assms(1)] assms(2)
  by (simp add: pong_history_def new_binding_def)

theorem lost_only_after_a_pong_witness:
  "\<exists>es1 now es2 pong. sample_events @ [Server_input S_Pong 2, Keep_alive_timeout 6] =
     es1 @ Keep_alive_timeout now # es2 \<and> last_pong es1 = Some pong \<and>
    keep_alive_limit sample_timeouts \<le> duration_since now pong"
proof -
  let ?b = "sample_binding\<lparr>conn_state := InfoReceived (sample_info_received\<lparr>keep_alive :=
      (keep_alive sample_info_received)\<lparr>last_pong_received_at := Some 2\<rparr>\<rparr>)\<rparr>"
  let ?lost = "sample_binding\<lparr>conn_state := ConnectionLost\<rparr>"
  have "binding_step ref_sync (sample_binding, sample_world) (Server_input S_Pong 2) (?b, sample_world)"
    by (simp add: binding_eval sample_binding_def)
  moreover have "binding_step ref_sync (?b, sample_world) (Keep_alive_timeout 6) (?lost, sample_world)"
    by (simp add: binding_eval sample_binding_def)
  ultimately have "binding_run ref_sync sample_start
      ((sample_events @ [Server_input S_Pong 2]) @ [Keep_alive_timeout 6]) (?lost, sample_world)"
    using sample_run run_snoc by metis
  from lost_only_after_a_pong [OF this] show ?thesis by simp
qed

text \<open>C30: A refused or lost connection stays as it is: from \<open>NotInfoReceived\<close> or \<open>ConnectionLost\<close> no
  sequence of events changes the connection, touches a channel or transmits anything, and neither
  kind of input panics.\<close>

theorem refused_connections_stay:
  assumes "conn_state b \<in> {NotInfoReceived, ConnectionLost}"
  shows "(binding_run io (b, w) es y \<longrightarrow> y = (b, w) \<and> polled es = []) \<and>
    server_inputs io b cs w = Value (b, w) \<and> client_inputs io b ks w = Value (b, w)"
proof -
  have "handle_server_input io b c now w = Value (b, w)" "handle_client_input io b k now w = Value (b, w)"
    for c k now
    using assms by (auto simp: handle_server_input_def handle_client_input_def change_state_def)
  then have "server_inputs io b cs w = Value (b, w) \<and> client_inputs io b ks w = Value (b, w)"
    by (induction cs; induction ks) auto
  moreover have "binding_run io (b, w) es y \<longrightarrow> y = (b, w) \<and> polled es = []"
    using refused_run assms by metis
  ultimately show ?thesis by simp
qed

theorem refused_connections_stay_witness:
  "server_inputs ref_sync (sample_binding\<lparr>conn_state := ConnectionLost\<rparr>) [(S_Ping, 1)] sample_world =
     Value (sample_binding\<lparr>conn_state := ConnectionLost\<rparr>, sample_world)"
  using refused_connections_stay [of "sample_binding\<lparr>conn_state := ConnectionLost\<rparr>" ref_sync sample_world
      "[]" _ "[(S_Ping, 1)]" "[]"] by simp

text \<open>C23: \<open>PING\<close>s of the server are answered and \<open>PONG\<close>s only answer \<open>PING\<close>s: in every run from a
  connection with no answer due that is still established at its end and in which a \<open>PING\<close> was
  received, calling the handler once the delay after every \<open>PING\<close> has passed leaves at least one more
  \<open>PONG\<close> transmitted or in the queue than before the run, and at most one per \<open>PING\<close>. (\<open>PING\<close>s that
  arrive before the answer to an earlier one is queued share its answer.)\<close>

theorem pings_are_answered:
  assumes "conn_state b = InfoReceived r" "last_ping_received_at (keep_alive r) = None"
    and "binding_run io (b, w) es (b', w')" "conn_state b' = InfoReceived r'"
    and "Server_input S_Ping t \<in> set es"
    and "\<forall>s. Server_input S_Ping s \<in> set es \<longrightarrow> pong_delay (timeouts b) \<le> duration_since now s"
  shows "count_list (queued b) C_Pong < count_list (polled es @ queued (handle_send_pong_timeout b' now)) C_Pong \<and>
    count_list (polled es @ queued (handle_send_pong_timeout b' now)) C_Pong \<le>
      count_list (queued b) C_Pong + length (filter is_ping es)"
proof -
  have p: "filter is_ping es \<noteq> []" using assms(5) by (force simp: filter_empty_conv)
  have t: "timeouts b' = timeouts b" using run_timeouts [OF assms(3)] by simp
  show ?thesis
    using run_answering [OF assms(3,1,2)] assms(4,6) p t
    by (cases "last_ping_received_at (keep_alive r')")
      (auto simp: answering_def handle_send_pong_timeout_def queued_def)
qed

theorem pings_are_answered_witness:
  "\<exists>b1. binding_run ref_sync (sample_binding, sample_world) [Server_input S_Ping 5, Server_input S_Ok 6] (b1, sample_world) \<and>
     0 < count_list (queued (handle_send_pong_timeout b1 7)) C_Pong"
proof -
  let ?r = "sample_info_received\<lparr>keep_alive := (keep_alive sample_info_received)\<lparr>last_ping_received_at := Some 5\<rparr>\<rparr>"
  let ?b = "sample_binding\<lparr>conn_state := InfoReceived ?r\<rparr>" and ?es = "[Server_input S_Ping 5, Server_input S_Ok 6]"
  have b: "binding_run ref_sync (sample_binding, sample_world) ?es (?b, sample_world)"
    by (rule exec_events_run) (simp add: binding_eval sample_binding_def)
  have "count_list (queued sample_binding) C_Pong < count_list (polled ?es @ queued (handle_send_pong_timeout ?b 7)) C_Pong"
    using pings_are_answered [OF _ _ b, of sample_info_received ?r 5 7]
    by (auto simp: sample_binding_def sample_info_received_def sample_timeouts_def duration_since_def)
  then have "0 < count_list (queued (handle_send_pong_timeout ?b 7)) C_Pong" by simp
  with b show ?thesis by blast
qed

end
