(* ===== verification/Tokio_Claims.thy ===== *)
theory Tokio_Claims
  imports Tokio_Client Binding_Claims
begin

text \<open>
  The properties of the \<open>tokio\<close> client: the loop is a run of the binding, what it writes is what
  the binding hands out, and the life of a subscription from request to drop.
\<close>

subsection \<open>A runtime for the witnesses\<close>

text \<open>The writer keeps the commands sent, a ticker is its next deadline.\<close>

definition ref_runtime :: "(client_command list, instant) runtime" where
  "ref_runtime = \<lparr>writer_send = (\<lambda>c net. net @ [c]), reset_at = (\<lambda>tk t. t)\<rparr>"

abbreviation ref_start :: "(nat, nat, client_command list, instant) loop_state" where
  "ref_start \<equiv> loop_start sample_timeouts [] 0 0 0"

lemmas loop_eval = loop_start_def loop_head_def transmit_all.simps reset_tickers_def reset_ticker_def
  ref_runtime_def ref_sync_def binding_eval instant_add_def INSTANT_LIMIT_def

subsection \<open>Properties\<close>

text \<open>C5: The loop is a run of the binding: whenever it has processed a list of \<open>select!\<close> outcomes
  without a panic, its binding is where some run of \<open>NatsBinding\<close> leads whose inputs and timeouts are
  exactly these outcomes, in order, up to the end of the TCP stream; the writer was given exactly the
  commands that run transmits, in order; none is left in the queue; and the loop has stopped if and
  only if the stream ended.\<close>

theorem loop_refines_binding:
  assumes "run_loop io rt (loop_start t net ping pong keep) arms w = Value (go, s', w')"
  shows "\<exists>es. binding_run io (new_binding t, w) es (binding s', w') \<and>
    filter (\<lambda>e. \<not> is_transmit e) es = live_arms arms \<and>
    writer s' = fold (writer_send rt) (polled es) net \<and> queued (binding s') = [] \<and>
    go = (\<forall>(a, _) \<in> set arms. \<not> end_of_stream a)"
  using run_loop_run [OF assms] by (simp add: loop_start_def)

theorem loop_refines_binding_witness:
  "\<exists>(es :: nat event list) s' w'. run_loop ref_sync ref_runtime ref_start
       [(Frame (Some (Inr (S_Info ref_info))) 1, 1), (Frame None 2, 2)] ref_world0 = Value (False, s', w') \<and>
     filter (\<lambda>e. \<not> is_transmit e) es = [Server_input (S_Info ref_info) 1] \<and>
     writer s' = [C_Connect hello_connect] \<and> polled es = [C_Connect hello_connect]"
proof -
  obtain s' w' where r: "run_loop ref_sync ref_runtime ref_start
       [(Frame (Some (Inr (S_Info ref_info))) 1, 1), (Frame None 2, 2)] ref_world0 = Value (False, s', w')"
    and w: "writer s' = [C_Connect hello_connect]"
    by (simp add: loop_eval)
  have f: "fold (writer_send ref_runtime) cs net = net @ cs" for cs net
    by (induction cs arbitrary: net) (simp_all add: ref_runtime_def)
  have l: "live_arms [(Frame (Some (Inr (S_Info ref_info))) 1, 1), (Frame None 2, 2)] =
      [Server_input (S_Info ref_info) 1]"
    by (simp add: live_arms_def end_of_stream_def)
  obtain es :: "nat event list" where es: "filter (\<lambda>e. \<not> is_transmit e) es = [Server_input (S_Info ref_info) 1]"
    "writer s' = fold (writer_send ref_runtime) (polled es) []"
    using loop_refines_binding [OF r] unfolding l by blast
  have "polled es = [C_Connect hello_connect]" using es(2) w by (simp add: f)
  with r w es(1) show ?thesis by blast
qed

text \<open>C37: Losing the connection does not end the loop: once the binding is lost or refused, the loop
  goes on through any ticks, commands and frames until the TCP stream ends, discarding them all and
  writing nothing.\<close>

theorem lost_loop_goes_on:
  assumes "conn_state (binding s) \<in> {NotInfoReceived, ConnectionLost}"
    and "\<forall>(a, _) \<in> set arms. \<not> end_of_stream a"
  shows "\<exists>s'. run_loop io rt s arms w = Value (True, s', w) \<and> binding s' = binding s \<and> writer s' = writer s"
  using assms
proof (induction arms arbitrary: s)
  case Nil
  then have "poll_transmit (binding s) = (None, binding s)" by (auto simp: poll_transmit_def)
  then show ?case by (simp add: loop_head_def transmit_all.simps)
next
  case (Cons x arms)
  obtain a now where x: "x = (a, now)" by force
  have "poll_transmit (binding s) = (None, binding s)" using Cons.prems(1) by (auto simp: poll_transmit_def)
  then have h: "loop_head rt s = s" by (cases s) (simp add: loop_head_def transmit_all.simps)
  have "\<exists>s1. select_arm io s a w = Value (True, s1, w) \<and> binding s1 = binding s \<and> writer s1 = writer s"
    using Cons.prems x
    by (cases "(io, s, a, w)" rule: select_arm.cases)
      (auto simp: end_of_stream_def handle_send_ping_timeout_def handle_send_pong_timeout_def
        handle_keep_alive_timeout_def handle_server_input_def handle_client_input_def change_state_def)
  then obtain s1 where s1: "select_arm io s a w = Value (True, s1, w)" "binding s1 = binding s" "writer s1 = writer s"
    by blast
  then have "\<exists>s2. reset_tickers rt s1 now = Value s2"
    using Cons.prems(1) by (auto simp: reset_tickers_def poll_send_ping_timeout_def
        poll_send_pong_timeout_def poll_keep_alive_timeout_def)
  then obtain s2 where s2: "reset_tickers rt s1 now = Value s2" by blast
  with reset_tickers_keeps [OF s2] s1 Cons.prems Cons.IH [of s2] show ?case by (simp add: x h)
qed

theorem lost_loop_goes_on_witness:
  "\<exists>s'. run_loop ref_sync ref_runtime (ref_start\<lparr>binding := sample_binding\<lparr>conn_state := ConnectionLost\<rparr>\<rparr>)
       [(Frame (Some (Inr S_Ping)) 1, 1)] sample_world = Value (True, s', sample_world) \<and>
     binding s' = binding (ref_start\<lparr>binding := sample_binding\<lparr>conn_state := ConnectionLost\<rparr>\<rparr>) \<and>
     writer s' = writer (ref_start\<lparr>binding := sample_binding\<lparr>conn_state := ConnectionLost\<rparr>\<rparr>)"
  by (rule lost_loop_goes_on) (simp_all add: end_of_stream_def)

text \<open>C38: A keep-alive limit too large for the clock, such as \<open>Duration::MAX\<close> for "never", panics: the
  first \<open>PONG\<close> of the server ends the loop when the next deadline is computed.\<close>

theorem pong_panics_on_huge_limit:
  assumes "conn_state (binding s) = InfoReceived r" "INSTANT_LIMIT \<le> t + keep_alive_limit (timeouts (binding s))"
  shows "run_loop io rt s ((Frame (Some (Inr S_Pong)) t, now) # arms) w = Panic"
proof -
  obtain r' where r': "conn_state (binding (loop_head rt s)) = InfoReceived r'"
    "timeouts (binding (loop_head rt s)) = timeouts (binding s)"
    using loop_head_keeps [OF assms(1)] by metis
  then show ?thesis
    using assms(2)
    by (simp add: handle_server_input_def change_state_def reset_tickers_overflow
        poll_keep_alive_timeout_def run_bind_eq_Panic)
qed

theorem pong_panics_on_huge_limit_witness:
  "run_loop ref_sync ref_runtime
     (ref_start\<lparr>binding := sample_binding\<lparr>timeouts := sample_timeouts\<lparr>keep_alive_limit := INSTANT_LIMIT\<rparr>\<rparr>\<rparr>)
     [(Frame (Some (Inr S_Pong)) 1, 1)] sample_world = Panic"
  by (rule pong_panics_on_huge_limit [where r = sample_info_received]) (simp_all add: sample_binding_def)

text \<open>C17: The life of a subscription, from the user's request to the drop of its subscriber. The
  request gives the registry one more entry, the sender of the channel just made, under the next id.
  The subscriber made from the reply the step sends reads the receiver of that channel, for as many
  messages as the options allow, and the command its drop sends cancels that very id. Handling it
  removes the entry and nothing else, and the server has been sent the subscription, its limit when there is one,
  and the cancellation, all with that id.\<close>

theorem dropped_subscription_leaves_no_trace:
  assumes "conn_state b = InfoReceived r" "sids_issued r"
    and "\<forall>one resp v v'. oneshot_send io one resp v = (True, v') \<longrightarrow> reply_of v' one = Some resp"
    and "\<forall>chan c v v'. cmd_try_send u chan c v = (True, v') \<longrightarrow> sent v' = sent v @ [c]"
    and "handle_client_input io b (Subscribe subject options sender) now w = Value (b1, w1)"
    and "subscribe_finish u h (reply_of w1 sender) = Value sub"
    and "subscriber_drop u sub v = Value v'"
  shows "\<exists>tx rx w0 r1 b2 r2. let sid = u64_to_string (sid_generator r) in
    mpsc_channel io 1024 w = ((tx, rx), w0) \<and>
    conn_state b1 = InfoReceived r1 \<and> sid2subscriber r1 = (sid2subscriber r)(sid \<mapsto> tx) \<and>
    subscriber_messages sub = (case opt_max_msgs options of
        None \<Rightarrow> receiver_stream u rx
      | Some m \<Rightarrow> take_stream u (unat (nz_get m)) (receiver_stream u rx)) \<and>
    sent v' = sent v @ [Unsubscribe sid None] \<and>
    handle_client_input io b1 (Unsubscribe sid None) later w1 = Value (b2, w1) \<and>
    conn_state b2 = InfoReceived r2 \<and> sid2subscriber r2 = sid2subscriber r \<and>
    buffered_transmits r2 = buffered_transmits r @
      [C_Subscribe \<lparr>sub_subject = subject, sub_queue_group = opt_queue_group options, sub_sid = sid\<rparr>] @
      (case opt_max_msgs options of None \<Rightarrow> []
       | Some m \<Rightarrow> [C_Unsubscribe \<lparr>unsub_sid = sid, unsub_max_msgs = Some m\<rparr>]) @
      [C_Unsubscribe \<lparr>unsub_sid = sid, unsub_max_msgs = None\<rparr>]"
proof -
  let ?sid = "u64_to_string (sid_generator r)"
  obtain tx rx w0 where chan: "mpsc_channel io 1024 w = ((tx, rx), w0)" by (metis surj_pair)
  let ?resp = "\<lparr>resp_sid = ?sid, resp_max_msgs = opt_max_msgs options, resp_msg_chan = rx\<rparr>"
  obtain r1 where r1: "conn_state b1 = InfoReceived r1" "oneshot_send io sender ?resp w0 = (True, w1)"
    "sid2subscriber r1 = (sid2subscriber r)(?sid \<mapsto> tx)"
    "buffered_transmits r1 = buffered_transmits r @
      [C_Subscribe \<lparr>sub_subject = subject, sub_queue_group = opt_queue_group options, sub_sid = ?sid\<rparr>] @
      (case opt_max_msgs options of None \<Rightarrow> []
       | Some m \<Rightarrow> [C_Unsubscribe \<lparr>unsub_sid = ?sid, unsub_max_msgs = Some m\<rparr>])"
    using assms(1,5) chan
    by (auto simp: handle_client_input_def change_state_def Let_def split: option.splits)
  have "reply_of w1 sender = Some ?resp" using assms(3) r1(2) by blast
  then have sub: "subscriber_sid sub = ?sid" "subscriber_messages sub = (case opt_max_msgs options of
        None \<Rightarrow> receiver_stream u rx
      | Some m \<Rightarrow> take_stream u (unat (nz_get m)) (receiver_stream u rx))"
    using assms(6) by (auto simp: subscribe_finish_def Let_def split: option.splits)
  have "sent v' = sent v @ [Unsubscribe ?sid None]"
    using assms(4,7) sub(1) by (auto simp: subscriber_drop_def)
  moreover have "(sid2subscriber r1)(?sid := None) = sid2subscriber r"
    using sids_issued_fresh [OF assms(2)] r1(3) by (auto simp: fun_upd_idem)
  ultimately show ?thesis
    using r1(1,3,4) chan sub(2)
    by (simp add: Let_def handle_client_input_def change_state_def)
qed

text \<open>
  A user side whose channel is the list of commands sent and whose stream is a receiver with the
  number of messages it may still yield.
\<close>

definition ref_user :: "(nat connection_command list, unit, nat, nat, nat, nat \<times> nat option) user_io" where
  "ref_user =
     \<lparr>cmd_send = (\<lambda>chan c v. (True, v @ [c])), cmd_try_send = (\<lambda>chan c v. (True, v @ [c])),
      oneshot_channel = (\<lambda>v. ((0, 0), v)), receiver_stream = (\<lambda>rx. (rx, None)),
      take_stream = (\<lambda>n st. (fst st, Some n)), poll_stream = (\<lambda>st v. (Pending, st, v))\<rparr>"

definition ref_reply :: "ref_world \<Rightarrow> nat \<Rightarrow> nat subscribe_response option" where
  "ref_reply w one = map_of (rev (rw_replies w)) one"

definition five :: nonzero_usize where
  "five = the (nz_new 5)"

lemma nz_get_five: "nz_get five = 5"
  by (simp add: five_def nz_new_def Abs_nonzero_inverse)

theorem dropped_subscription_leaves_no_trace_witness:
  "\<exists>b1 w1 sub b2 r2. handle_client_input ref_sync sample_binding
       (Subscribe ''b'' \<lparr>opt_max_msgs = Some five, opt_queue_group = None\<rparr> 8) 3 sample_world = Value (b1, w1) \<and>
     subscribe_finish ref_user \<lparr>handle_chan = ()\<rparr> (ref_reply w1 8) = Value sub \<and>
     subscriber_messages sub = (1, Some 5) \<and>
     subscriber_drop ref_user sub [] = Value [Unsubscribe (u64_to_string 2) None] \<and>
     handle_client_input ref_sync b1 (Unsubscribe (u64_to_string 2) None) 4 w1 = Value (b2, w1) \<and>
     conn_state b2 = InfoReceived r2 \<and> sid2subscriber r2 = [''1'' \<mapsto> 0]"
proof -
  let ?opts = "\<lparr>opt_max_msgs = Some five, opt_queue_group = None\<rparr>"
  have r: "conn_state sample_binding = InfoReceived sample_info_received" by (simp add: sample_binding_def)
  have g: "sid_generator sample_info_received = 2" "sid2subscriber sample_info_received = [''1'' \<mapsto> 0]"
    by (simp_all add: sample_info_received_def)
  have i: "sids_issued sample_info_received"
    unfolding sids_issued_def g by (auto intro!: exI [of _ 1])
  have o: "\<forall>one resp v v'. oneshot_send ref_sync one resp v = (True, v') \<longrightarrow> ref_reply v' one = Some resp"
    by (auto simp: ref_sync_def ref_reply_def)
  have t: "\<forall>chan c v v'. cmd_try_send ref_user chan c v = (True, v') \<longrightarrow> v' = v @ [c]"
    by (simp add: ref_user_def)
  obtain b1 w1 where s: "handle_client_input ref_sync sample_binding (Subscribe ''b'' ?opts 8) 3 sample_world =
      Value (b1, w1)" and w1: "ref_reply w1 8 \<noteq> None"
    by (simp add: handle_client_input_def change_state_def r ref_sync_def ref_reply_def Let_def)
  obtain sub where f: "subscribe_finish ref_user \<lparr>handle_chan = ()\<rparr> (ref_reply w1 8) = Value sub"
    using w1 by (auto simp: subscribe_finish_def Let_def)
  obtain v' where d: "subscriber_drop ref_user sub [] = Value v'"
    by (simp add: subscriber_drop_def ref_user_def)
  from dropped_subscription_leaves_no_trace [OF r i o t s f d, of 4] s f d g(2)
  show ?thesis
    by (simp add: Let_def g(1) nz_get_five) (auto simp: ref_user_def ref_sync_def sample_world_def)
qed

end
