(* ===== verification/Spliterators.thy ===== *)
theory Spliterators
  imports Crates
begin

text \<open>
  The two splitting iterators of \<open>decoding/mod.rs\<close>. An iterator is the list of items it
  yields; \<open>next()\<close> takes the head. \<open>break_crlf\<close> and \<open>split_on\<close> are the abstract
  specifications: the text up to the first CR LF with the rest, and the fields between
  separators. The lemmas show that the iterators compute them, that every slice they take is
  inside the buffer, and how they behave when the buffer grows.
\<close>

subsection \<open>The iterators\<close>

text \<open>
  The \<open>scan\<close> both iterators share: the slice from the end of the last separator to the
  position found, and the offset just past the separator.
\<close>

fun scan_slices :: "buf \<Rightarrow> nat \<Rightarrow> nat \<Rightarrow> nat list \<Rightarrow> (buf \<times> nat) list" where
  "scan_slices bytes n acc [] = []"
| "scan_slices bytes n acc (pos # cs) =
     (take (pos - acc) (drop acc bytes), pos + n) # scan_slices bytes n (pos + n) cs"

definition slice_spliterator :: "crates \<Rightarrow> buf \<Rightarrow> buf \<Rightarrow> (buf \<times> nat) list" where
  "slice_spliterator d bytes needle =
     scan_slices bytes (length needle) 0 (memmem_find_iter d bytes needle)"

definition char_spliterator :: "crates \<Rightarrow> buf \<Rightarrow> u8 \<Rightarrow> (buf \<times> nat) list" where
  "char_spliterator d bytes needle = scan_slices bytes 1 0 (memchr_iter d needle bytes)"

subsection \<open>The specifications\<close>

fun break_crlf :: "buf \<Rightarrow> (buf \<times> buf) option" where
  "break_crlf [] = None"
| "break_crlf [x] = None"
| "break_crlf (x # y # r) =
     (if x = CR \<and> y = LF then Some ([], r)
      else map_option (\<lambda>(a, b). (x # a, b)) (break_crlf (y # r)))"

definition no_crlf :: "buf \<Rightarrow> bool" where
  "no_crlf s \<longleftrightarrow> break_crlf s = None"

fun split_on :: "u8 \<Rightarrow> buf \<Rightarrow> buf list" where
  "split_on c [] = [[]]"
| "split_on c (x # xs) =
     (if x = c then [] # split_on c xs
      else (case split_on c xs of [] \<Rightarrow> [[x]] | f # fs \<Rightarrow> (x # f) # fs))"

lemma split_on_not_Nil [simp]: "split_on c xs \<noteq> []"
  by (induction xs) (auto split: list.splits)

lemma split_on_no_sep: "c \<notin> set xs \<Longrightarrow> split_on c xs = [xs]"
  by (induction xs) auto

lemma split_on_append_sep:
  "c \<notin> set a \<Longrightarrow> split_on c (a @ c # b) = a # split_on c b"
  by (induction a) auto

lemma split_on_single: "split_on c xs = [f] \<Longrightarrow> f = xs \<and> c \<notin> set xs"
  by (induction xs arbitrary: f) (auto split: if_splits list.splits)

lemma break_crlf_Some:
  "break_crlf s = Some (a, b) \<longleftrightarrow> s = a @ CRLF @ b \<and> no_crlf a"
proof (induction s arbitrary: a b rule: break_crlf.induct)
  case (3 x y r)
  show ?case
  proof (cases "x = CR \<and> y = LF")
    case True
    have "no_crlf [] " by (simp add: no_crlf_def)
    moreover have "a = []" if "CR # LF # r = a @ CRLF @ b" "no_crlf a"
      using that by (cases a rule: break_crlf.cases) (auto simp: no_crlf_def CRLF_def)
    ultimately show ?thesis using True by (auto simp: CRLF_def)
  next
    case False
    show ?thesis
    proof (cases a)
      case Nil
      then show ?thesis using False by (auto simp: CRLF_def)
    next
      case (Cons z a')
      have "no_crlf (x # a') = no_crlf a'" if "y # r = a' @ CRLF @ b"
        using that False by (cases a') (auto simp: no_crlf_def CRLF_def)
      then show ?thesis using 3 [OF False, of a' b] False Cons by auto
    qed
  qed
qed (auto simp: CRLF_def append_eq_Cons_conv Cons_eq_append_conv)

lemma no_crlf_Nil [simp]: "no_crlf []"
  by (simp add: no_crlf_def)

lemma break_crlf_append_CRLF: "no_crlf a \<Longrightarrow> break_crlf (a @ CRLF @ b) = Some (a, b)"
  by (simp add: break_crlf_Some)

lemma break_crlf_append: "break_crlf s = Some (a, b) \<Longrightarrow> break_crlf (s @ t) = Some (a, b @ t)"
  by (simp add: break_crlf_Some)

lemma no_crlf_if_no_CR: "CR \<notin> set s \<Longrightarrow> no_crlf s"
proof (unfold no_crlf_def, induction s rule: break_crlf.induct)
qed auto

subsection \<open>The positions the searches find\<close>

lemma no_crlf_iff: "no_crlf s \<longleftrightarrow> (\<forall>i. \<not> occurs_at s CRLF i)"
proof
  assume n: "no_crlf s"
  show "\<forall>i. \<not> occurs_at s CRLF i"
  proof (rule allI, rule notI)
    fix i assume "occurs_at s CRLF i"
    then have s: "s = take i s @ CRLF @ drop (i + 2) s"
      by (metis add.commute append_take_drop_id drop_drop length_CRLF occurs_at_def)
    obtain a b where "break_crlf s = Some (a, b)"
    proof (cases "no_crlf (take i s)")
      case True
      then have "break_crlf s = Some (take i s, drop (i + 2) s)"
        using s by (simp add: break_crlf_Some)
      then show ?thesis by (rule that)
    next
      case False
      then obtain a b where "break_crlf (take i s) = Some (a, b)"
        by (auto simp: no_crlf_def)
      then have "break_crlf s = Some (a, b @ CRLF @ drop (i + 2) s)"
        using break_crlf_append s by metis
      then show ?thesis by (rule that)
    qed
    with n show False by (simp add: no_crlf_def)
  qed
next
  assume no: "\<forall>i. \<not> occurs_at s CRLF i"
  show "no_crlf s"
  proof (rule ccontr)
    assume "\<not> no_crlf s"
    then obtain a b where "s = a @ CRLF @ b"
      by (cases "break_crlf s") (auto simp: no_crlf_def break_crlf_Some)
    then have "occurs_at s CRLF (length a)" by (simp add: occurs_at_def)
    with no show False by blast
  qed
qed

lemma filter_occurs_no_crlf: "no_crlf s \<Longrightarrow> filter (occurs_at s CRLF) [0..<n] = []"
  by (simp add: no_crlf_iff)

lemma no_occurrence_before:
  assumes "no_crlf a" "i < length a"
  shows "\<not> occurs_at (a @ CRLF @ b) CRLF i"
proof
  assume o: "occurs_at (a @ CRLF @ b) CRLF i"
  show False
  proof (cases "i + 2 \<le> length a")
    case True
    with o have "occurs_at a CRLF i" by (auto intro: occurs_at_appendD)
    with assms(1) show False by (simp add: no_crlf_iff)
  next
    case False
    with assms(2) have i: "length a = Suc i" by simp
    then have "drop i (a @ CRLF @ b) = (a ! i) # CRLF @ b"
      by (simp add: Cons_nth_drop_Suc [symmetric] nth_append)
    with o have "take 2 ((a ! i) # CRLF @ b) = CRLF" by (simp only: occurs_at_def length_CRLF)
    then show False by (simp add: CRLF_def)
  qed
qed

lemma filter_occurs_CRLF:
  assumes "no_crlf a"
  shows "filter (occurs_at (a @ CRLF @ b) CRLF) [0..<length (a @ CRLF @ b)] =
    length a # map ((+) (length a + 2)) (filter (occurs_at b CRLF) [0..<length b])"
proof -
  let ?s = "a @ CRLF @ b"
  have a: "filter (occurs_at ?s CRLF) [0..<length a] = []"
    using no_occurrence_before [OF assms] by (simp add: filter_empty_conv)
  have "filter (\<lambda>i. occurs_at ?s CRLF (length a + i)) [0..<2 + length b] =
      0 # map ((+) 2) (filter (occurs_at b CRLF) [0..<length b])"
    unfolding filter_upt_add by (simp add: CRLF_def occurs_at_def [abs_def] numeral_2_eq_2 upt_0_Suc)
  then show ?thesis
    using a filter_upt_add [of "occurs_at ?s CRLF" "length a" "2 + length b"]
    by (simp add: o_def add.assoc)
qed

lemma filter_nth_none: "c \<notin> set s \<Longrightarrow> filter (\<lambda>i. s ! i = c) [0..<length s] = []"
  by (auto simp: filter_empty_conv)

lemma filter_nth_sep:
  assumes "c \<notin> set a"
  shows "filter (\<lambda>i. (a @ c # b) ! i = c) [0..<length (a @ c # b)] =
    length a # map ((+) (length a + 1)) (filter (\<lambda>i. b ! i = c) [0..<length b])"
proof -
  have a: "filter (\<lambda>i. (a @ c # b) ! i = c) [0..<length a] = []"
    using assms by (auto simp: filter_empty_conv nth_append)
  then show ?thesis
    using filter_upt_add [of "\<lambda>i. (a @ c # b) ! i = c" "length a" "Suc (length b)"]
    by (simp add: filter_upt_Suc nth_append o_def del: upt_Suc)
qed

lemma find_occurs_eq_break:
  "List.find (occurs_at s CRLF) [0..<length s] = map_option (length \<circ> fst) (break_crlf s)"
proof (cases "break_crlf s")
  case None
  then show ?thesis using no_crlf_iff [of s] by (simp add: no_crlf_def find_None_iff)
next
  case (Some p)
  obtain a b where p: "p = (a, b)" by force
  with Some have s: "s = a @ CRLF @ b" and a: "no_crlf a" by (simp_all add: break_crlf_Some)
  have "List.find (occurs_at s CRLF) [0..<length s] = Some (length a)"
    unfolding find_upt_Some_iff using no_occurrence_before [OF a, of _ b]
    by (auto simp: s occurs_at_def)
  with Some p show ?thesis by simp
qed

subsection \<open>The iterators compute the specifications\<close>

lemma scan_slices_shift:
  "scan_slices (pre @ b) n (length pre + acc) (map ((+) (length pre)) ps) =
   map (\<lambda>(s, e). (s, length pre + e)) (scan_slices b n acc ps)"
proof (induction ps arbitrary: acc)
  case (Cons p ps)
  then show ?case using Cons [of "p + n"] by (simp add: add.assoc)
qed simp

theorem slice_spliterator_rec:
  assumes "memchr_ok d"
  shows "slice_spliterator d s CRLF =
    (case break_crlf s of None \<Rightarrow> []
     | Some (a, b) \<Rightarrow>
         (a, length a + 2) #
         map (\<lambda>(x, e). (x, length a + 2 + e)) (slice_spliterator d b CRLF))"
proof (cases "break_crlf s")
  case None
  then have "no_crlf s" by (simp add: no_crlf_def)
  then show ?thesis
    using None assms by (simp add: slice_spliterator_def memmem_find_iter_ok filter_occurs_no_crlf)
next
  case (Some p)
  obtain a b where p: "p = (a, b)" by force
  with Some have s: "s = a @ CRLF @ b" and a: "no_crlf a" by (simp_all add: break_crlf_Some)
  show ?thesis
    using Some p assms filter_occurs_CRLF [OF a, of b]
      scan_slices_shift [of "a @ CRLF" b 2 0 "filter (occurs_at b CRLF) [0..<length b]"]
    by (simp add: slice_spliterator_def memmem_find_iter_ok s)
qed

fun field_items :: "nat \<Rightarrow> buf list \<Rightarrow> (buf \<times> nat) list" where
  "field_items off (f # g # fs) = (f, off + length f + 1) # field_items (off + length f + 1) (g # fs)"
| "field_items off _ = []"

lemma length_field_items [simp]: "length (field_items off fs) = length fs - 1"
  by (induction off fs rule: field_items.induct) simp_all

lemma field_items_shift:
  "map (\<lambda>(s, e). (s, k + e)) (field_items off fs) = field_items (k + off) fs"
  by (induction off fs rule: field_items.induct) (auto simp: add.assoc)

lemma field_items_Nil_iff [simp]:
  "field_items off fs = [] \<longleftrightarrow> length fs \<le> 1" "[] = field_items off fs \<longleftrightarrow> length fs \<le> 1"
  by (cases fs rule: remdups_adj.cases; auto)+

lemma split_on_decomp:
  "c \<in> set s \<Longrightarrow> \<exists>a b. s = a @ c # b \<and> c \<notin> set a"
  by (rule split_list_first)

theorem char_spliterator_eq:
  assumes "memchr_ok d"
  shows "char_spliterator d s c = field_items 0 (split_on c s)"
proof (induction "length s" arbitrary: s rule: less_induct)
  case less
  show ?case
  proof (cases "c \<in> set s")
    case False
    then have "filter (\<lambda>i. s ! i = c) [0..<length s] = []" by (rule filter_nth_none)
    then show ?thesis
      using assms False by (simp add: char_spliterator_def memchr_iter_ok split_on_no_sep)
  next
    case True
    then obtain a b where s: "s = a @ c # b" and a: "c \<notin> set a" by (blast dest: split_on_decomp)
    have b: "char_spliterator d b c = field_items 0 (split_on c b)"
      using less [of b] by (simp add: s)
    obtain f fs where f: "split_on c b = f # fs" by (cases "split_on c b") auto
    show ?thesis
      using assms b filter_nth_sep [OF a, of b] field_items_shift [of "length a + 1" 0 "f # fs"]
        scan_slices_shift [of "a @ [c]" b 1 0 "filter (\<lambda>i. b ! i = c) [0..<length b]"]
      by (simp add: char_spliterator_def memchr_iter_ok s split_on_append_sep [OF a] f)
  qed
qed

text \<open>What is left after a field: the next fields.\<close>

lemma split_on_drop: "split_on c s = f # g # fs \<Longrightarrow> split_on c (drop (Suc (length f)) s) = g # fs"
proof -
  assume s: "split_on c s = f # g # fs"
  then have "c \<in> set s" using split_on_no_sep by fastforce
  then obtain a b where ab: "s = a @ c # b" and "c \<notin> set a" by (blast dest: split_on_decomp)
  with s show ?thesis by (simp add: split_on_append_sep)
qed

lemma split_on_drop1: "split_on c s = [f, g] \<Longrightarrow> drop (Suc (length f)) s = g"
  by (auto dest!: split_on_drop split_on_single)

lemma split_on_drop2: "split_on c s = [f, g, h] \<Longrightarrow> drop (Suc (Suc (length f + length g))) s = h"
  by (auto dest!: split_on_drop split_on_drop1 simp: add.commute)

lemma split_on_drop3:
  "split_on c s = [f, g, h, i] \<Longrightarrow> drop (Suc (Suc (Suc (length f + length g + length h)))) s = i"
  by (auto dest!: split_on_drop split_on_drop2 simp: ac_simps)

lemma split_on_drop4:
  "split_on c s = [f, g, h, i, j] \<Longrightarrow>
   drop (Suc (Suc (Suc (Suc (length f + length g + length h + length i))))) s = j"
  by (auto dest!: split_on_drop split_on_drop3 simp: ac_simps)

lemmas split_on_drops = split_on_drop1 split_on_drop2 split_on_drop3 split_on_drop4

subsection \<open>Bounds and growth\<close>

text \<open>
  The source slices \<open>&bytes[*acc..curr]\<close> and \<open>&metadata[last..]\<close>; both ranges are inside the
  buffer: an offset is at most the length, and the slice ends two bytes before it.
\<close>

theorem slice_spliterator_bounds:
  assumes "memchr_ok d"
  shows "(x, e) \<in> set (slice_spliterator d s CRLF) \<Longrightarrow> length x + 2 \<le> e \<and> e \<le> length s"
proof (induction "length s" arbitrary: s x e rule: less_induct)
  case less
  then obtain a b where ab: "break_crlf s = Some (a, b)"
    using slice_spliterator_rec [OF assms, of s] by (auto split: option.splits)
  then have s: "s = a @ CRLF @ b" by (simp add: break_crlf_Some)
  with less.prems ab consider "x = a" "e = length a + 2"
    | e' where "(x, e') \<in> set (slice_spliterator d b CRLF)" "e = length a + 2 + e'"
    using slice_spliterator_rec [OF assms, of s] by auto
  then show ?case
  proof cases
    case 2
    with s less.hyps [of b x e'] show ?thesis by simp
  qed (simp add: s)
qed

text \<open>When bytes arrive, the items found so far stay.\<close>

theorem slice_spliterator_append:
  assumes "memchr_ok d"
  shows "\<exists>t. slice_spliterator d (s @ extra) CRLF = slice_spliterator d s CRLF @ t"
proof (induction "length s" arbitrary: s rule: less_induct)
  case less
  show ?case
  proof (cases "break_crlf s")
    case None
    then show ?thesis using slice_spliterator_rec [OF assms, of s] by simp
  next
    case (Some p)
    obtain a b where p: "p = (a, b)" by force
    with Some have s: "s = a @ CRLF @ b" by (simp add: break_crlf_Some)
    then obtain t where "slice_spliterator d (b @ extra) CRLF = slice_spliterator d b CRLF @ t"
      using less [of b] by auto
    then show ?thesis
      using Some p slice_spliterator_rec [OF assms, of s]
        slice_spliterator_rec [OF assms, of "s @ extra"] break_crlf_append [of s a b extra] by simp
  qed
qed

lemma slice_spliterator_Nil_iff:
  "memchr_ok d \<Longrightarrow> slice_spliterator d s CRLF = [] \<longleftrightarrow> no_crlf s"
  by (subst slice_spliterator_rec) (auto simp: no_crlf_def split: option.splits)

lemma slice_spliterator_first:
  assumes "memchr_ok d" "no_crlf a"
  shows "slice_spliterator d (a @ CRLF @ b) CRLF =
    (a, length a + 2) # map (\<lambda>(x, e). (x, length a + 2 + e)) (slice_spliterator d b CRLF)"
  using slice_spliterator_rec [OF assms(1), of "a @ CRLF @ b"]
  by (simp add: break_crlf_append_CRLF assms(2))

lemma slice_spliterator_ConsD:
  assumes "memchr_ok d" "slice_spliterator d s CRLF = (a, e) # it"
  shows "s = a @ CRLF @ drop e s \<and> no_crlf a \<and> e = length a + 2"
proof -
  obtain b where "break_crlf s = Some (a, b)" "e = length a + 2"
    using assms slice_spliterator_rec [OF assms(1), of s] by (auto split: option.splits)
  then show ?thesis by (simp add: break_crlf_Some)
qed

subsection \<open>Fields joined by spaces\<close>

text \<open>The wire form of a metadata line, and the byte strings that can be a field of one.\<close>

fun join_fields :: "buf list \<Rightarrow> buf" where
  "join_fields [] = []"
| "join_fields [f] = f"
| "join_fields (f # fs) = f @ SP # join_fields fs"

definition token :: "buf \<Rightarrow> bool" where
  "token f \<longleftrightarrow> utf8_valid f \<and> SP \<notin> set f \<and> no_crlf f"

lemma tokenD [dest]: "token f \<Longrightarrow> utf8_valid f" "token f \<Longrightarrow> SP \<notin> set f" "token f \<Longrightarrow> no_crlf f"
  by (simp_all add: token_def)

lemma token_from_utf8 [simp]: "token f \<Longrightarrow> from_utf8 f = Some f"
  by (simp add: token_def)

fun token_opt :: "buf option \<Rightarrow> bool" where
  "token_opt None = True"
| "token_opt (Some f) = token f"

lemma token_opt_from_utf8 [simp]: "token_opt x \<Longrightarrow> from_utf8_opt x = Some x"
  by (cases x) (auto simp: from_utf8_opt_def)

lemma no_crlf_single [simp]: "no_crlf [x]"
  by (simp add: no_crlf_def)

lemma no_crlf_Cons2: "no_crlf (x # y # s) \<longleftrightarrow> \<not> (x = CR \<and> y = LF) \<and> no_crlf (y # s)"
  by (simp add: no_crlf_def)

lemma no_crlf_sep_Cons: "c \<noteq> LF \<Longrightarrow> c \<noteq> CR \<Longrightarrow> no_crlf (c # b) \<longleftrightarrow> no_crlf b"
  by (cases b) (simp_all add: no_crlf_Cons2)

lemma no_crlf_sep: "c \<noteq> CR \<Longrightarrow> c \<noteq> LF \<Longrightarrow> no_crlf (a @ c # b) \<longleftrightarrow> no_crlf a \<and> no_crlf b"
  by (induction a rule: break_crlf.induct) (auto simp: no_crlf_Cons2 no_crlf_sep_Cons)

lemma SP_neq [simp]: "SP \<noteq> CR" "SP \<noteq> LF" "COLON \<noteq> CR" "COLON \<noteq> LF"
  by (simp_all add: CR_def LF_def)

lemma no_crlf_join: "\<forall>f \<in> set fs. no_crlf f \<Longrightarrow> no_crlf (join_fields fs)"
  by (induction fs rule: join_fields.induct) (simp_all add: no_crlf_sep)

lemma is_digit_plain: "is_digit c \<Longrightarrow> c \<noteq> CR \<and> c \<noteq> LF \<and> c \<noteq> SP"
  by (auto simp: is_digit_def byte_val_def CR_def LF_def)

lemma token_show_usize [simp]: "token (show_usize w)"
  unfolding token_def
  by (auto dest!: show_usize_digits is_digit_plain intro!: no_crlf_if_no_CR)

lemma SP_show_usize [simp]: "SP \<notin> set (show_usize w)"
  by (rule tokenD) simp

lemmas fields_eval = split_on_append_sep split_on_no_sep tokenD(2)

lemma slice_spliterator_two:
  assumes "memchr_ok d" "no_crlf a" "no_crlf b"
  shows "\<exists>it. slice_spliterator d (a @ CRLF @ b @ CRLF @ r) CRLF =
    (a, length a + 2) # (b, length a + length b + 4) # it"
  using slice_spliterator_first [OF assms(1,2), of "b @ CRLF @ r"]
    slice_spliterator_first [OF assms(1,3), of r] by auto

lemma join_split_on: "join_fields (split_on SP s) = s"
proof (induction "length s" arbitrary: s rule: less_induct)
  case less
  show ?case
  proof (cases "SP \<in> set s")
    case False
    then show ?thesis by (simp add: split_on_no_sep)
  next
    case True
    then obtain a b where s: "s = a @ SP # b" and a: "SP \<notin> set a" by (blast dest: split_on_decomp)
    obtain f fs where f: "split_on SP b = f # fs" by (cases "split_on SP b") auto
    then show ?thesis using less [of b] by (simp add: s split_on_append_sep [OF a])
  qed
qed

lemma no_crlf_take: "no_crlf s \<Longrightarrow> no_crlf (take k s)"
  using occurs_at_append [of CRLF "take k s" _ "drop k s"] by (auto simp: no_crlf_iff)

text \<open>A line is not complete until its last byte is there.\<close>

lemma no_crlf_cut_line: "no_crlf a \<Longrightarrow> k < length a + 2 \<Longrightarrow> no_crlf (take k (a @ CRLF @ r))"
proof -
  assume a: "no_crlf a" and k: "k < length a + 2"
  show ?thesis
  proof (cases "k \<le> length a")
    case True
    then show ?thesis using no_crlf_take [OF a, of k] by simp
  next
    case False
    with k have "k = Suc (length a)" by simp
    then have "take k (a @ CRLF @ r) = a @ [CR]" by (simp add: CRLF_def)
    moreover have "no_crlf (a @ [CR])"
      using a by (induction a rule: break_crlf.induct) (auto simp: no_crlf_Cons2)
    ultimately show ?thesis by simp
  qed
qed

lemma no_crlf_prefix: "CR \<notin> set p \<Longrightarrow> LF \<notin> set p \<Longrightarrow> no_crlf (p @ s) \<longleftrightarrow> no_crlf s"
  by (induction p) (auto simp: no_crlf_sep_Cons)

end
