(* ===== verification/Headers.thy ===== *)
theory Headers
  imports Spliterators
begin

text \<open>
  \<open>decoding/header.rs\<close>: the header block of \<open>HMSG\<close> and \<open>HPUB\<close>. \<open>parse_header\<close> reads one
  \<open>name: value\<close> line, \<open>parse_headers\<close> the version line and then header lines until the
  empty line that must end exactly at the announced length.
\<close>

subsection \<open>One header line\<close>

definition parse_header :: "crates \<Rightarrow> buf \<Rightarrow> header_decode_error + header_name \<times> header_value" where
  "parse_header d line =
     (case memchr_iter d COLON line of
        [colon_index] \<Rightarrow>
          (let name = take colon_index line;
               value = strip_suffix1 SP (strip_prefix1 SP (drop (colon_index + 1) line))
           in case from_utf8 name of None \<Rightarrow> Inl BadHeaderName
              | Some name \<Rightarrow> (case from_utf8 value of None \<Rightarrow> Inl BadHeaderValue
                  | Some value \<Rightarrow> Inr (name, value)))
      | _ \<Rightarrow> Inl NoColon)"

subsection \<open>The block\<close>

text \<open>\<open>headers.entry(name).or_default().push(value)\<close>.\<close>

definition push_header :: "header_map \<Rightarrow> header_name \<Rightarrow> header_value \<Rightarrow> header_map" where
  "push_header h name value =
     h(name \<mapsto> (case h name of None \<Rightarrow> [] | Some vs \<Rightarrow> vs) @ [value])"

text \<open>The \<open>loop\<close>, over the items the spliterator still yields.\<close>

fun header_loop ::
  "crates \<Rightarrow> nat \<Rightarrow> (buf \<times> nat) list \<Rightarrow> header_map \<Rightarrow> header_decode_error + header_map" where
  "header_loop d headers_length [] headers = Inl BadLength"
| "header_loop d headers_length ((line, offset) # it) headers =
     (if line = [] \<and> offset = headers_length then Inr headers
      else if line \<noteq> [] \<and> offset \<noteq> headers_length then
        (case parse_header d line of Inl e \<Rightarrow> Inl e
         | Inr (name, value) \<Rightarrow> header_loop d headers_length it (push_header headers name value))
      else Inl BadLength)"

definition NATS_VERSION :: buf where
  "NATS_VERSION = ''NATS/1.0''"

definition parse_headers :: "crates \<Rightarrow> buf \<Rightarrow> nat \<Rightarrow> header_decode_error + header_map" where
  "parse_headers d header_buffer headers_length =
     (if headers_length < 2 then Inl BadLength
      else case slice_spliterator d header_buffer CRLF of
        (first, _) # it \<Rightarrow>
          (if first = NATS_VERSION then header_loop d headers_length it Map.empty
           else Inl MissingNatsVersion)
      | [] \<Rightarrow> Inl MissingNatsVersion)"

subsection \<open>Lines\<close>

lemma parse_header_line:
  assumes "memchr_ok d" "COLON \<notin> set k" "COLON \<notin> set v"
  shows "memchr_iter d COLON (k @ COLON # v) = [length k]"
proof -
  have "filter (\<lambda>i. v ! i = COLON) [0..<length v] = []"
    using assms(3) by (rule filter_nth_none)
  then show ?thesis
    using assms filter_nth_sep [OF assms(2), of v] by (simp add: memchr_iter_ok)
qed

text \<open>
  A line is refused for its colons exactly when it does not have one; this is \<open>NoColon\<close> for a
  value that contains a colon too.
\<close>

lemma parse_header_NoColon:
  assumes "memchr_ok d"
  shows "parse_header d s = Inl NoColon \<longleftrightarrow> length (filter (\<lambda>c. c = COLON) s) \<noteq> 1"
proof -
  have "length (memchr_iter d COLON s) = length (filter (\<lambda>c. c = COLON) s)"
    using assms distinct_length_filter [of "[0..<length s]" "\<lambda>i. s ! i = COLON"]
    by (simp add: memchr_iter_ok length_filter_conv_card Int_def conj_commute)
  then show ?thesis
    by (cases "memchr_iter d COLON s" rule: remdups_adj.cases)
      (auto simp: parse_header_def Let_def split: option.splits)
qed

text \<open>The line the encoder writes for a header is read back when the header is plain.\<close>

definition plain_header :: "header_name \<Rightarrow> header_value \<Rightarrow> bool" where
  "plain_header k v \<longleftrightarrow>
     utf8_valid k \<and> utf8_valid v \<and> COLON \<notin> set k \<and> COLON \<notin> set v \<and>
     no_crlf (k @ COLON # SP # v) \<and> (v = [] \<or> last v \<noteq> SP)"

lemma parse_header_plain:
  assumes "memchr_ok d" "plain_header k v"
  shows "parse_header d (k @ COLON # SP # v) = Inr (k, v)"
proof -
  have "memchr_iter d COLON (k @ COLON # SP # v) = [length k]"
    using assms by (intro parse_header_line) (auto simp: plain_header_def)
  then show ?thesis
    using assms(2) by (simp add: parse_header_def plain_header_def from_utf8_valid)
qed

lemma parse_header_utf8:
  "parse_header d s = Inr (k, v) \<Longrightarrow> utf8_valid k \<and> utf8_valid v"
  by (auto simp: parse_header_def Let_def split: list.splits option.splits)

subsection \<open>Blocks\<close>

text \<open>What every pushed header keeps, the whole block keeps.\<close>

lemma header_loop_invariant:
  assumes push: "\<And>h s k v. P h \<Longrightarrow> parse_header d s = Inr (k, v) \<Longrightarrow> P (push_header h k v)"
  shows "P h \<Longrightarrow> header_loop d n it h = Inr h' \<Longrightarrow> P h'"
proof (induction it arbitrary: h)
  case (Cons x it)
  show ?case
  proof (cases "x = ([], n)")
    case True
    with Cons.prems show ?thesis by simp
  next
    case False
    with Cons.prems(2) obtain k v where "parse_header d (fst x) = Inr (k, v)"
      and "header_loop d n it (push_header h k v) = Inr h'"
      by (cases x) (auto split: if_splits sum.splits)
    with Cons.prems(1) show ?thesis by (blast intro: Cons.IH push)
  qed
qed simp

lemma parse_headers_invariant:
  assumes "\<And>h s k v. P h \<Longrightarrow> parse_header d s = Inr (k, v) \<Longrightarrow> P (push_header h k v)"
    and "P Map.empty" and "parse_headers d b n = Inr h"
  shows "P h"
  using assms(2,3) header_loop_invariant [of P d, OF assms(1)]
  by (auto simp: parse_headers_def split: if_splits list.splits)

lemma push_header_utf8:
  assumes "utf8_headers h" "utf8_valid k" "utf8_valid v"
  shows "utf8_headers (push_header h k v)"
proof (cases "h k")
  case None
  with assms show ?thesis by (auto simp: utf8_headers_def push_header_def)
next
  case (Some vs)
  with assms(1) have "\<forall>v \<in> set vs. utf8_valid v" by (simp add: utf8_headers_def)
  with assms Some show ?thesis by (auto simp: utf8_headers_def push_header_def)
qed

text \<open>Every string of a parsed block is valid UTF-8, and every name has a value.\<close>

lemma parse_headers_utf8: "parse_headers d b n = Inr h \<Longrightarrow> utf8_headers h"
proof (erule parse_headers_invariant [rotated 2])
  show "utf8_headers Map.empty" by (simp add: utf8_headers_def)
qed (blast dest: parse_header_utf8 intro: push_header_utf8)

lemma parse_headers_nonempty: "parse_headers d b n = Inr h \<Longrightarrow> h k \<noteq> Some []"
proof (erule parse_headers_invariant [rotated 2])
qed (simp_all add: push_header_def)

subsection \<open>The block of a list of headers\<close>

text \<open>
  The specification of the wire format: the version line, one line per header, the empty line.
\<close>

definition header_line :: "header_name \<times> header_value \<Rightarrow> buf" where
  "header_line kv = fst kv @ COLON # SP # snd kv"

definition header_block :: "(header_name \<times> header_value) list \<Rightarrow> buf" where
  "header_block kvs =
     concat (map (\<lambda>l. l @ CRLF) (NATS_VERSION # map header_line kvs @ [[]]))"

definition flatten_headers ::
  "(header_name \<times> header_value list) list \<Rightarrow> (header_name \<times> header_value) list" where
  "flatten_headers es = concat (map (\<lambda>(k, vs). map (Pair k) vs) es)"

fun line_items :: "nat \<Rightarrow> buf list \<Rightarrow> (buf \<times> nat) list" where
  "line_items off [] = []"
| "line_items off (l # ls) = (l, off + length l + 2) # line_items (off + length l + 2) ls"

lemma line_items_shift: "map (\<lambda>(s, e). (s, k + e)) (line_items off ls) = line_items (k + off) ls"
  by (induction ls arbitrary: off) (simp_all add: add.assoc)

lemma slice_spliterator_lines:
  assumes "memchr_ok d"
  shows "\<forall>l \<in> set ls. no_crlf l \<Longrightarrow>
    slice_spliterator d (concat (map (\<lambda>l. l @ CRLF) ls)) CRLF = line_items 0 ls"
proof (induction ls)
  case Nil
  show ?case using slice_spliterator_rec [OF assms, of "[]"] by simp
next
  case (Cons l ls)
  have "break_crlf (l @ CRLF @ concat (map (\<lambda>l. l @ CRLF) ls)) =
      Some (l, concat (map (\<lambda>l. l @ CRLF) ls))"
    using Cons.prems by (intro break_crlf_append_CRLF) simp
  then show ?case
    using Cons slice_spliterator_rec [OF assms, of "concat (map (\<lambda>l. l @ CRLF) (l # ls))"]
      line_items_shift [of "length l + 2" 0 ls]
    by (simp add: add.commute)
qed

lemma header_loop_lines:
  assumes "memchr_ok d" "\<forall>(k, v) \<in> set kvs. plain_header k v"
  shows "n = off + length (concat (map (\<lambda>l. l @ CRLF) (map header_line kvs @ [[]]))) \<Longrightarrow>
    header_loop d n (line_items off (map header_line kvs @ [[]])) h =
    Inr (fold (\<lambda>(k, v) h. push_header h k v) kvs h)"
  using assms(2)
proof (induction kvs arbitrary: off h)
  case (Cons kv kvs)
  obtain k v where kv: "kv = (k, v)" by force
  with Cons.prems have "parse_header d (header_line kv) = Inr (k, v)"
    by (simp add: header_line_def parse_header_plain [OF assms(1)])
  moreover have "header_line kv \<noteq> []" by (simp add: header_line_def)
  moreover have "off + length (header_line kv) + 2 \<noteq> n" using Cons.prems by simp
  moreover have "header_loop d n (line_items (off + length (header_line kv) + 2)
      (map header_line kvs @ [[]])) (push_header h k v) =
      Inr (fold (\<lambda>(k, v) h. push_header h k v) kvs (push_header h k v))"
    by (rule Cons.IH) (use Cons.prems in simp_all)
  ultimately show ?case by (simp add: kv)
qed simp

lemma NATS_VERSION_no_crlf [simp]: "no_crlf NATS_VERSION"
  by (rule no_crlf_if_no_CR) (simp add: NATS_VERSION_def CR_def)

theorem parse_headers_block:
  assumes "memchr_ok d" "\<forall>(k, v) \<in> set kvs. plain_header k v"
  shows "parse_headers d (header_block kvs) (length (header_block kvs)) =
    Inr (fold (\<lambda>(k, v) h. push_header h k v) kvs Map.empty)"
proof -
  have "\<forall>l \<in> set (NATS_VERSION # map header_line kvs @ [[]]). no_crlf l"
    using assms(2) by (auto simp: plain_header_def header_line_def)
  then have "slice_spliterator d (header_block kvs) CRLF =
      line_items 0 (NATS_VERSION # map header_line kvs @ [[]])"
    unfolding header_block_def by (rule slice_spliterator_lines [OF assms(1)])
  moreover have "2 \<le> length (header_block kvs)" by (simp add: header_block_def)
  ultimately show ?thesis
    using header_loop_lines [OF assms, of "length (header_block kvs)" "length NATS_VERSION + 2"]
    by (simp add: parse_headers_def header_block_def add.commute)
qed

text \<open>The first line that is not a header decides.\<close>

lemma header_loop_refused:
  assumes "memchr_ok d" "parse_header d l = Inl e" "l \<noteq> []" "\<forall>(k, v) \<in> set kvs. plain_header k v"
  shows "off + length (concat (map (\<lambda>l. l @ CRLF) (map header_line kvs @ [l]))) < n \<Longrightarrow>
    header_loop d n (line_items off (map header_line kvs @ l # ls)) h = Inl e"
  using assms(4)
proof (induction kvs arbitrary: off h)
  case (Cons kv kvs)
  obtain k v where kv: "kv = (k, v)" by force
  with Cons.prems have "parse_header d (header_line kv) = Inr (k, v)"
    by (simp add: header_line_def parse_header_plain [OF assms(1)])
  moreover have "header_line kv \<noteq> []" by (simp add: header_line_def)
  moreover have "off + length (header_line kv) + 2 \<noteq> n" using Cons.prems by simp
  moreover have "header_loop d n (line_items (off + length (header_line kv) + 2)
      (map header_line kvs @ l # ls)) (push_header h k v) = Inl e"
    by (rule Cons.IH) (use Cons.prems in simp_all)
  ultimately show ?case by (simp add: kv)
qed (use assms in simp)

lemma parse_headers_refused:
  assumes "memchr_ok d" "\<forall>(k, v) \<in> set kvs. plain_header k v"
    and "parse_header d (header_line (k, v)) = Inl e" "no_crlf (header_line (k, v))"
    and "\<forall>kv \<in> set kvs'. no_crlf (header_line kv)"
  shows "parse_headers d (header_block (kvs @ (k, v) # kvs'))
    (length (header_block (kvs @ (k, v) # kvs'))) = Inl e"
proof -
  let ?b = "header_block (kvs @ (k, v) # kvs')"
  let ?ls = "map header_line kvs @ header_line (k, v) # map header_line kvs' @ [[]]"
  have "\<forall>l \<in> set (NATS_VERSION # ?ls). no_crlf l"
    using assms(2,4,5) by (auto simp: plain_header_def header_line_def)
  moreover have "?b = concat (map (\<lambda>l. l @ CRLF) (NATS_VERSION # ?ls))" by (simp add: header_block_def)
  ultimately have "slice_spliterator d ?b CRLF = line_items 0 (NATS_VERSION # ?ls)"
    using slice_spliterator_lines [OF assms(1)] by metis
  moreover have "header_loop d (length ?b) (line_items (length NATS_VERSION + 2) ?ls) Map.empty = Inl e"
    by (rule header_loop_refused [OF assms(1,3) _ assms(2)]) (simp_all add: header_line_def header_block_def)
  ultimately show ?thesis by (simp add: parse_headers_def header_block_def)
qed

subsection \<open>What was parsed was there\<close>

lemma header_loop_sound:
  assumes d: "memchr_ok d"
  shows "header_loop d n (map (\<lambda>(x, e). (x, off + e)) (slice_spliterator d s CRLF)) h = Inr h' \<Longrightarrow>
    \<exists>ls kvs r. s = concat (map (\<lambda>l. l @ CRLF) (ls @ [[]])) @ r \<and>
      n = off + length (concat (map (\<lambda>l. l @ CRLF) (ls @ [[]]))) \<and> map (parse_header d) ls = map Inr kvs \<and>
      h' = fold (\<lambda>(k, v) h. push_header h k v) kvs h"
proof (induction "length s" arbitrary: s off h rule: less_induct)
  case less
  show ?case
  proof (cases "break_crlf s")
    case None
    with less.prems show ?thesis by (simp add: slice_spliterator_rec [OF d, of s])
  next
    case (Some ab)
    then obtain a b where ab: "break_crlf s = Some (a, b)" by (cases ab) auto
    then have s: "s = a @ CRLF @ b" by (simp add: break_crlf_Some)
    have it: "map (\<lambda>(x, e). (x, off + e)) (slice_spliterator d s CRLF) =
        (a, off + length a + 2) # map (\<lambda>(x, e). (x, (off + length a + 2) + e)) (slice_spliterator d b CRLF)"
      unfolding slice_spliterator_rec [OF d, of s] ab by (simp add: o_def case_prod_beta add.assoc)
    show ?thesis
    proof (cases "a = []")
      case True
      with less.prems have "n = off + 2" "h' = h" unfolding it by (auto split: if_splits)
      with True s show ?thesis by (intro exI [of _ "[]"] exI [of _ b]) simp
    next
      case False
      with less.prems obtain k v where kv: "parse_header d a = Inr (k, v)"
        and l: "header_loop d n (map (\<lambda>(x, e). (x, (off + length a + 2) + e)) (slice_spliterator d b CRLF))
          (push_header h k v) = Inr h'"
        unfolding it by (auto split: if_splits sum.splits)
      have "length b < length s" using s by simp
      from less.hyps [OF this l] obtain ls kvs r where
        "b = concat (map (\<lambda>l. l @ CRLF) (ls @ [[]])) @ r"
        "n = off + length a + 2 + length (concat (map (\<lambda>l. l @ CRLF) (ls @ [[]])))"
        "map (parse_header d) ls = map Inr kvs" "h' = fold (\<lambda>(k, v) h. push_header h k v) kvs (push_header h k v)"
        by blast
      with kv s show ?thesis
        by (intro exI [of _ "a # ls"] exI [of _ "(k, v) # kvs"] exI [of _ r]) simp
    qed
  qed
qed

text \<open>What was parsed is what the buffer begins with, line by line.\<close>

lemma parse_headers_sound:
  assumes d: "memchr_ok d" and p: "parse_headers d b n = Inr h"
  shows "\<exists>ls kvs r. b = concat (map (\<lambda>l. l @ CRLF) (NATS_VERSION # ls @ [[]])) @ r \<and>
    n = length (concat (map (\<lambda>l. l @ CRLF) (NATS_VERSION # ls @ [[]]))) \<and>
    map (parse_header d) ls = map Inr kvs \<and> h = fold (\<lambda>(k, v) h. push_header h k v) kvs Map.empty"
proof -
  obtain e it where it: "slice_spliterator d b CRLF = (NATS_VERSION, e) # it"
    "header_loop d n it Map.empty = Inr h"
    using p by (auto simp: parse_headers_def split: if_splits list.splits)
  then obtain c where c: "break_crlf b = Some (NATS_VERSION, c)"
    "it = map (\<lambda>(x, e). (x, length NATS_VERSION + 2 + e)) (slice_spliterator d c CRLF)"
    using slice_spliterator_rec [OF d, of b] by (auto split: option.splits)
  then have b: "b = NATS_VERSION @ CRLF @ c" by (simp add: break_crlf_Some)
  from header_loop_sound [OF d it(2) [unfolded c(2)]] obtain ls kvs r where
    "c = concat (map (\<lambda>l. l @ CRLF) (ls @ [[]])) @ r"
    "n = length NATS_VERSION + 2 + length (concat (map (\<lambda>l. l @ CRLF) (ls @ [[]])))"
    "map (parse_header d) ls = map Inr kvs" "h = fold (\<lambda>(k, v) h. push_header h k v) kvs Map.empty" by blast
  with b show ?thesis by (intro exI [of _ ls] exI [of _ kvs] exI [of _ r]) simp
qed

subsection \<open>Pushing the entries of a map rebuilds it\<close>

lemma fold_push_values:
  "fold (\<lambda>(k, v) h. push_header h k v) (map (Pair k) vs) (h(k \<mapsto> us)) = h(k \<mapsto> us @ vs)"
  by (induction vs arbitrary: us) (simp_all add: push_header_def)

lemma fold_push_entry:
  assumes "h k = None" "vs \<noteq> []"
  shows "fold (\<lambda>(k, v) h. push_header h k v) (map (Pair k) vs) h = h(k \<mapsto> vs)"
proof (cases vs)
  case (Cons v vs')
  with assms(1) have "push_header h k v = h(k \<mapsto> [v])" by (simp add: push_header_def)
  with Cons fold_push_values [of k vs' h "[v]"] show ?thesis by simp
qed (use assms in simp)

theorem fold_push_flatten:
  "distinct (map fst es) \<Longrightarrow> \<forall>e \<in> set es. snd e \<noteq> [] \<and> h (fst e) = None \<Longrightarrow>
   fold (\<lambda>(k, v) h. push_header h k v) (flatten_headers es) h = h ++ map_of es"
proof (induction es arbitrary: h)
  case (Cons e es)
  obtain k vs where e: "e = (k, vs)" by force
  with Cons.prems have "fold (\<lambda>(k, v) h. push_header h k v) (map (Pair k) vs) h = h(k \<mapsto> vs)"
    by (intro fold_push_entry) auto
  moreover have "\<forall>e' \<in> set es. snd e' \<noteq> [] \<and> (h(k \<mapsto> vs)) (fst e') = None"
    using Cons.prems e by (auto simp: image_iff)
  moreover have "h(k \<mapsto> vs) ++ map_of es = h ++ map_of (e # es)"
    using Cons.prems(1) e by (auto simp: map_add_def fun_eq_iff dom_map_of_conv_image_fst
      map_of_eq_None_iff image_iff split: option.splits dest: map_of_SomeD)
  moreover have "fold (\<lambda>(k, v) h. push_header h k v) (flatten_headers es) (h(k \<mapsto> vs)) =
      h(k \<mapsto> vs) ++ map_of es"
    by (rule Cons.IH) (use Cons.prems(1) calculation(2) in simp_all)
  moreover have "flatten_headers (e # es) = map (Pair k) vs @ flatten_headers es"
    by (simp add: flatten_headers_def e)
  ultimately show ?case by (simp only: fold_append o_apply)
qed (simp add: flatten_headers_def)

end
