(* ===== verification/Command_Decoder.thy ===== *)
theory Command_Decoder
  imports Headers
begin

text \<open>
  The trait \<open>CommandDecoder\<close> of \<open>decoding/mod.rs\<close> as an interface. \<open>decode_body\<close> gets the
  whole receive buffer after the command's prefix, so more of the stream may follow the
  frame. What the framing loop needs of it: a result that is not \<open>FrameTooShort\<close> does not
  change when more bytes arrive (\<open>command_decoder\<close>). The decoders that need only complete
  lines promise more: they never panic and consume at most the buffer (\<open>safe_decoder\<close>).
\<close>

type_synonym ('t, 'e) body_result = "('t, 'e) command_decoder_result run"

locale command_decoder =
  fixes decode_body :: "crates \<Rightarrow> buf \<Rightarrow> ('t, 'e) body_result"
  assumes advance_grow:
    "memchr_ok d \<Longrightarrow> decode_body d b = Value (Advance f n) \<Longrightarrow>
     decode_body d (b @ extra) = Value (Advance f n)"
  and fatal_grow:
    "memchr_ok d \<Longrightarrow> \<not> no_crlf b \<Longrightarrow> decode_body d b = Value (FatalError e) \<Longrightarrow>
     decode_body d (b @ extra) = Value (FatalError e)"
begin

text \<open>Two cuts of one stream never decode to different frames.\<close>

lemma advance_unique:
  assumes "memchr_ok d" "decode_body d b = Value (Advance f n)"
    and "decode_body d (b @ extra) = Value (Advance f' n')"
  shows "f' = f \<and> n' = n"
  using advance_grow [OF assms(1,2), of extra] assms(3) by simp

text \<open>A frame is found at its first complete prefix or not before.\<close>

lemma too_short_before_advance:
  assumes "memchr_ok d" "decode_body d (b @ extra) = Value (Advance f n)" "\<not> no_crlf b"
  shows "decode_body d b \<noteq> Value (FatalError e)"
  using fatal_grow [OF assms(1,3), of e extra] assms(2) by auto

end

locale safe_decoder = command_decoder +
  assumes no_panic: "memchr_ok d \<Longrightarrow> decode_body d b \<noteq> Panic"
  and in_bounds:
    "memchr_ok d \<Longrightarrow> decode_body d b = Value (Advance f n) \<Longrightarrow> 0 < n \<and> n \<le> length b"
begin

lemma outcomes:
  assumes "memchr_ok d"
  obtains f n where "decode_body d b = Value (Advance f n)" "n \<le> length b"
    | e where "decode_body d b = Value (FatalError e)"
    | r where "decode_body d b = Value (FrameTooShort r)"
  using no_panic [OF assms, of b] in_bounds [OF assms, of b]
  by (cases "decode_body d b"; cases "case decode_body d b of Value r \<Rightarrow> r") force+

end

subsection \<open>Reading the items of a growing buffer\<close>

text \<open>
  The shape every decoder has: it looks at the first item, or the first two, of the CR LF
  spliterator. The rules turn a result on a buffer into the same result on a longer one.
\<close>

lemma split_grow1:
  assumes "memchr_ok d" "slice_spliterator d b CRLF = x # it"
  obtains it' where "slice_spliterator d (b @ extra) CRLF = x # it'"
  using slice_spliterator_append [OF assms(1), of b extra] assms(2) by auto

lemma split_grow2:
  assumes "memchr_ok d" "slice_spliterator d b CRLF = x # y # it"
  obtains it' where "slice_spliterator d (b @ extra) CRLF = x # y # it'"
  using slice_spliterator_append [OF assms(1), of b extra] assms(2) by auto

lemma split_bounds1:
  assumes "memchr_ok d" "slice_spliterator d b CRLF = (x, e) # it"
  shows "0 < e \<and> e \<le> length b"
  using slice_spliterator_bounds [OF assms(1), of x e b] assms(2) by auto

lemma split_bounds2:
  assumes "memchr_ok d" "slice_spliterator d b CRLF = y # (x, e) # it"
  shows "0 < e \<and> e \<le> length b"
  using slice_spliterator_bounds [OF assms(1), of x e b] assms(2) by auto

text \<open>
  A decoder that is a function of the first line alone is safe: \<open>ping\<close>, \<open>pong\<close>, \<open>ok\<close>,
  \<open>err\<close>, \<open>info\<close>, \<open>sub\<close>, \<open>unsub\<close> and \<open>connect\<close> are of this kind.
\<close>

definition line_body ::
  "(crates \<Rightarrow> buf \<Rightarrow> ('t, 'e) body_result) \<Rightarrow>
   (crates \<Rightarrow> buf \<Rightarrow> ('e + 't) option) \<Rightarrow> ('t, 'e) command_decoder_result \<Rightarrow> bool" where
  "line_body dec line none \<longleftrightarrow> (\<forall>f n. none \<noteq> Advance f n) \<and>
     (\<forall>d b. dec d b =
       (case slice_spliterator d b CRLF of [] \<Rightarrow> Value none
        | (l, e) # _ \<Rightarrow> Value (case line d l of None \<Rightarrow> FrameTooShort None
            | Some (Inl err) \<Rightarrow> FatalError err | Some (Inr f) \<Rightarrow> Advance f e)))"

lemma line_body_Cons:
  "line_body dec line none \<Longrightarrow> slice_spliterator d b CRLF = (l, e) # it \<Longrightarrow>
   dec d b = Value (case line d l of None \<Rightarrow> FrameTooShort None
            | Some (Inl err) \<Rightarrow> FatalError err | Some (Inr f) \<Rightarrow> Advance f e)"
  unfolding line_body_def by simp

lemma line_body_Nil:
  "line_body dec line none \<Longrightarrow> slice_spliterator d b CRLF = [] \<Longrightarrow> dec d b = Value none"
  unfolding line_body_def by simp

lemma line_body_grow:
  assumes "line_body dec line none" "memchr_ok d" "slice_spliterator d b CRLF \<noteq> []"
  shows "dec d (b @ extra) = dec d b"
proof -
  obtain l e it where b: "slice_spliterator d b CRLF = (l, e) # it"
    using assms(3) by (cases "slice_spliterator d b CRLF") auto
  then obtain it' where "slice_spliterator d (b @ extra) CRLF = (l, e) # it'"
    using split_grow1 [OF assms(2)] by metis
  with b show ?thesis by (simp add: line_body_Cons [OF assms(1)])
qed

lemma line_body_safe:
  assumes "line_body dec line none"
  shows "safe_decoder dec"
proof
  fix d b f n extra
  assume d: "memchr_ok d" and r: "dec d b = Value (Advance f n)"
  have ne: "slice_spliterator d b CRLF \<noteq> []"
    using r line_body_Nil [OF assms, of d b] assms by (auto simp: line_body_def)
  show "dec d (b @ extra) = Value (Advance f n)"
    using line_body_grow [OF assms d ne] r by simp
  obtain l e it where b: "slice_spliterator d b CRLF = (l, e) # it"
    using ne by (cases "slice_spliterator d b CRLF") auto
  then have "n = e" using r line_body_Cons [OF assms b] by (auto split: option.splits sum.splits)
  then show "0 < n \<and> n \<le> length b" using split_bounds1 [OF d b] by simp
next
  fix d b e extra
  assume d: "memchr_ok d" and "\<not> no_crlf b" and r: "dec d b = Value (FatalError e)"
  then have "slice_spliterator d b CRLF \<noteq> []" by (simp add: slice_spliterator_Nil_iff)
  then show "dec d (b @ extra) = Value (FatalError e)"
    using line_body_grow [OF assms d] r by simp
next
  fix d b
  show "dec d b \<noteq> Panic"
    using assms by (cases "slice_spliterator d b CRLF") (auto simp: line_body_def)
qed

subsection \<open>Commands without arguments\<close>

text \<open>The body of \<open>ping.rs\<close>, \<open>pong.rs\<close> (both directions) and \<open>ok.rs\<close>: an empty first line.\<close>

definition empty_body :: "'t \<Rightarrow> crates \<Rightarrow> buf \<Rightarrow> ('t, 'e) body_result" where
  "empty_body frame d buffer =
     (case slice_spliterator d buffer CRLF of
        (line, end_pos) # _ \<Rightarrow>
          (if line = [] then Value (Advance frame end_pos) else Value (FrameTooShort None))
      | [] \<Rightarrow> Value (FrameTooShort None))"

lemma empty_body_line:
  "line_body (empty_body f) (\<lambda>d l. if l = [] then Some (Inr f) else None) (FrameTooShort None)"
  unfolding line_body_def empty_body_def by (auto split: list.splits)

lemma empty_body_frame: "empty_body f d b = Value (Advance c n) \<Longrightarrow> c = f"
  by (auto simp: empty_body_def split: list.splits if_splits)

end
