(* ===== verification/Server_Decoders.thy ===== *)
theory Server_Decoders
  imports Command_Decoder
begin

text \<open>
  The body decoders of the commands a server sends: \<open>decoding/ping.rs\<close>, \<open>pong.rs\<close>, \<open>ok.rs\<close>,
  \<open>err.rs\<close>, \<open>info.rs\<close>, \<open>msg.rs\<close> and \<open>hmsg.rs\<close>. Each definition follows its \<open>decode_body\<close>
  branch by branch; the \<open>TryFrom\<close> conversions of the parts are functions of their own. All of
  them satisfy \<open>command_decoder\<close>, all but \<open>HMSG\<close> satisfy \<open>safe_decoder\<close>; the panics of
  \<open>HMSG\<close> are characterised exactly.
\<close>

subsection \<open>PING, PONG and +OK\<close>

definition ping_server_decode :: "crates \<Rightarrow> buf \<Rightarrow> (server_command, server_decode_error) body_result"
  where "ping_server_decode = empty_body S_Ping"

definition pong_server_decode :: "crates \<Rightarrow> buf \<Rightarrow> (server_command, server_decode_error) body_result"
  where "pong_server_decode = empty_body S_Pong"

definition ok_decode :: "crates \<Rightarrow> buf \<Rightarrow> (server_command, server_decode_error) body_result"
  where "ok_decode = empty_body S_Ok"

subsection \<open>-ERR\<close>

definition err_decode :: "crates \<Rightarrow> buf \<Rightarrow> (server_command, server_decode_error) body_result" where
  "err_decode d buffer =
     (case slice_spliterator d buffer CRLF of
        [] \<Rightarrow> Value (FrameTooShort None)
      | (message, end_pos) # _ \<Rightarrow>
          (if \<not> (2 \<le> length message \<and> hd message = CHR 0x27 \<and> last message = CHR 0x27)
           then Value (FatalError SE_BadErr)
           else case slice_range message 1 (length message - 1) of
               Panic \<Rightarrow> Panic
             | Value inner \<Rightarrow>
                 (case from_utf8 inner of None \<Rightarrow> Value (FatalError SE_BadErr)
                  | Some decoded \<Rightarrow> Value (Advance (S_Err decoded) end_pos))))"

definition err_line :: "crates \<Rightarrow> buf \<Rightarrow> (server_decode_error + server_command) option" where
  "err_line d l =
     Some (if 2 \<le> length l \<and> hd l = CHR 0x27 \<and> last l = CHR 0x27 \<and> utf8_valid (butlast (tl l))
           then Inr (S_Err (butlast (tl l))) else Inl SE_BadErr)"

lemma err_decode_line: "line_body err_decode err_line (FrameTooShort None)"
proof -
  have "slice_range l 1 (length l - 1) = Value (butlast (tl l))" if "2 \<le> length l" for l
    using that by (simp add: slice_range_def butlast_conv_take drop_Suc take_tl)
  then show ?thesis
    unfolding line_body_def err_decode_def err_line_def
    by (auto split: list.splits option.splits)
qed

subsection \<open>INFO\<close>

definition info_decode :: "crates \<Rightarrow> buf \<Rightarrow> (server_command, server_decode_error) body_result" where
  "info_decode d buffer =
     (case slice_spliterator d buffer CRLF of
        [] \<Rightarrow> Value (FatalError SE_BadInfo)
      | (line, ending) # _ \<Rightarrow>
          (case json_info d line of None \<Rightarrow> Value (FatalError SE_BadInfo)
           | Some i \<Rightarrow> Value (Advance (S_Info i) ending)))"

lemma info_decode_line:
  "line_body info_decode
     (\<lambda>d l. Some (case json_info d l of None \<Rightarrow> Inl SE_BadInfo | Some i \<Rightarrow> Inr (S_Info i)))
     (FatalError SE_BadInfo)"
  unfolding line_body_def info_decode_def by (auto split: list.splits option.splits)

subsection \<open>MSG\<close>

record msg_parts =
  mp_subject :: buf
  mp_sid :: buf
  mp_reply_to :: "buf option"
  mp_bytes :: buf
  mp_payload :: buf

definition msg_try_from :: "msg_parts \<Rightarrow> server_decode_error + msg" where
  "msg_try_from v =
     (case from_utf8 (mp_subject v) of None \<Rightarrow> Inl SE_BadMsg
      | Some subject \<Rightarrow> (case from_utf8 (mp_sid v) of None \<Rightarrow> Inl SE_BadMsg
      | Some sid \<Rightarrow> (case from_utf8 (mp_bytes v) of None \<Rightarrow> Inl SE_BadMsg
      | Some utf8_bytes \<Rightarrow> (case parse_usize utf8_bytes of None \<Rightarrow> Inl SE_BadMsg
      | Some bytes \<Rightarrow> (case from_utf8_opt (mp_reply_to v) of None \<Rightarrow> Inl SE_BadMsg
      | Some reply_to \<Rightarrow>
          (if length (mp_payload v) \<noteq> unat bytes then Inl SE_BadMsg
           else Inr \<lparr>msg_subject = subject, msg_sid = sid, msg_reply_to = reply_to,
                     msg_bytes = bytes, msg_payload = mp_payload v\<rparr>))))))"

text \<open>The \<open>match\<close> on the spaces of the metadata: two are needed, a third is optional.\<close>

definition msg_fields :: "crates \<Rightarrow> buf \<Rightarrow> buf \<Rightarrow> msg_parts option" where
  "msg_fields d metadata payload =
     (case char_spliterator d metadata SP of
        [(subject, _), (sid, _), (reply_to, last_pos)] \<Rightarrow>
          Some \<lparr>mp_subject = subject, mp_sid = sid, mp_reply_to = Some reply_to,
                mp_bytes = drop last_pos metadata, mp_payload = payload\<rparr>
      | [(subject, _), (sid, last_pos)] \<Rightarrow>
          Some \<lparr>mp_subject = subject, mp_sid = sid, mp_reply_to = None,
                mp_bytes = drop last_pos metadata, mp_payload = payload\<rparr>
      | _ \<Rightarrow> None)"

definition msg_decode :: "crates \<Rightarrow> buf \<Rightarrow> (server_command, server_decode_error) body_result" where
  "msg_decode d buffer =
     (case slice_spliterator d buffer CRLF of
        (metadata_block, _) # (payload_block, msg_ending) # _ \<Rightarrow>
          (case msg_fields d metadata_block payload_block of
             None \<Rightarrow> Value (FatalError SE_BadMsg)
           | Some parts \<Rightarrow>
               (case msg_try_from parts of Inl e \<Rightarrow> Value (FatalError e)
                | Inr m \<Rightarrow> Value (Advance (S_Msg m) msg_ending)))
      | _ \<Rightarrow> Value (FrameTooShort None))"

subsection \<open>HMSG\<close>

record hmsg_parts =
  hp_subject :: buf
  hp_sid :: buf
  hp_reply_to :: "buf option"
  hp_header_bytes :: usize
  hp_total_bytes :: usize
  hp_headers :: buf
  hp_payload :: buf

definition hmsg_try_from :: "crates \<Rightarrow> hmsg_parts \<Rightarrow> server_decode_error + hmsg" where
  "hmsg_try_from d v =
     (case from_utf8 (hp_subject v) of None \<Rightarrow> Inl SE_BadHMsg
      | Some subject \<Rightarrow> (case from_utf8 (hp_sid v) of None \<Rightarrow> Inl SE_BadHMsg
      | Some sid \<Rightarrow> (case from_utf8_opt (hp_reply_to v) of None \<Rightarrow> Inl SE_BadHMsg
      | Some reply_to \<Rightarrow>
          (if hp_total_bytes v < hp_header_bytes v \<or>
              length (hp_payload v) \<noteq> unat (hp_total_bytes v - hp_header_bytes v)
           then Inl SE_BadHMsg
           else case parse_headers d (hp_headers v) (unat (hp_header_bytes v)) of
               Inl _ \<Rightarrow> Inl SE_BadHMsg
             | Inr headers \<Rightarrow>
                 Inr \<lparr>hmsg_subject = subject, hmsg_sid = sid, hmsg_reply_to = reply_to,
                      hmsg_header_bytes = hp_header_bytes v, hmsg_total_bytes = hp_total_bytes v,
                      hmsg_headers = headers, hmsg_payload = hp_payload v\<rparr>))))"

text \<open>The subject, sid, optional reply subject and the two byte counts of the metadata.\<close>

definition hmsg_fields ::
  "crates \<Rightarrow> buf \<Rightarrow> (buf \<times> buf \<times> buf option \<times> buf \<times> buf) option" where
  "hmsg_fields d metadata =
     (case char_spliterator d metadata SP of
        [(subject, _), (sid, _), (reply_to, _), (header_bytes, last_pos)] \<Rightarrow>
          Some (subject, sid, Some reply_to, header_bytes, drop last_pos metadata)
      | [(subject, _), (sid, _), (header_bytes, last_pos)] \<Rightarrow>
          Some (subject, sid, None, header_bytes, drop last_pos metadata)
      | _ \<Rightarrow> None)"

definition hmsg_decode :: "crates \<Rightarrow> buf \<Rightarrow> (server_command, server_decode_error) body_result" where
  "hmsg_decode d buffer =
     (case slice_spliterator d buffer CRLF of
        [] \<Rightarrow> Value (FrameTooShort None)
      | (metadata, metadata_len) # _ \<Rightarrow>
     (case hmsg_fields d metadata of
        None \<Rightarrow> Value (FrameTooShort None)
      | Some (subject, sid, reply_to, header_field, total_field) \<Rightarrow>
     (case (from_utf8 header_field, from_utf8 total_field) of
        (Some hs, Some ts) \<Rightarrow>
          (case (parse_usize hs, parse_usize ts) of
             (Some header_bytes, Some total_bytes) \<Rightarrow>
               (if total_bytes < header_bytes then Value (FatalError SE_BadHMsg)
                else if length buffer < unat total_bytes then Value (FrameTooShort None)
                else
                  run_bind (slice_range buffer metadata_len (metadata_len + unat header_bytes))
                    (\<lambda>headers.
                  run_bind (slice_range buffer (metadata_len + unat header_bytes)
                              (metadata_len + unat total_bytes)) (\<lambda>payload.
                  (case hmsg_try_from d
                      \<lparr>hp_subject = subject, hp_sid = sid, hp_reply_to = reply_to,
                       hp_header_bytes = header_bytes, hp_total_bytes = total_bytes,
                       hp_headers = headers, hp_payload = payload\<rparr> of
                     Inl e \<Rightarrow> Value (FatalError e)
                   | Inr h \<Rightarrow>
                       Value (Advance (S_HMsg h) (metadata_len + unat total_bytes + 2))))))
           | _ \<Rightarrow> Value (FatalError SE_BadHMsg))
      | _ \<Rightarrow> Value (FatalError SE_BadHMsg))))"

subsection \<open>The trait's contract\<close>

lemma msg_decode_safe: "safe_decoder msg_decode"
proof
  fix d b f n extra
  assume d: "memchr_ok d" and r: "msg_decode d b = Value (Advance f n)"
  obtain x y it where b: "slice_spliterator d b CRLF = x # (y, n) # it"
    using r by (auto simp: msg_decode_def split: list.splits option.splits sum.splits)
  obtain it' where "slice_spliterator d (b @ extra) CRLF = x # (y, n) # it'"
    using split_grow2 [OF d b] by metis
  with b r show "msg_decode d (b @ extra) = Value (Advance f n)"
    by (simp add: msg_decode_def split: prod.splits)
  show "0 < n \<and> n \<le> length b" by (rule split_bounds2 [OF d b])
next
  fix d b e extra
  assume d: "memchr_ok d" and r: "msg_decode d b = Value (FatalError e)"
  obtain x y it where b: "slice_spliterator d b CRLF = x # y # it"
    using r by (auto simp: msg_decode_def split: list.splits option.splits sum.splits)
  obtain it' where "slice_spliterator d (b @ extra) CRLF = x # y # it'"
    using split_grow2 [OF d b] by metis
  with b r show "msg_decode d (b @ extra) = Value (FatalError e)"
    by (simp add: msg_decode_def split: prod.splits)
next
  fix d b show "msg_decode d b \<noteq> Panic"
    by (auto simp: msg_decode_def split: list.splits option.splits sum.splits)
qed

interpretation ping_server: safe_decoder ping_server_decode
  unfolding ping_server_decode_def by (rule line_body_safe [OF empty_body_line])

interpretation pong_server: safe_decoder pong_server_decode
  unfolding pong_server_decode_def by (rule line_body_safe [OF empty_body_line])

interpretation ok_dec: safe_decoder ok_decode
  unfolding ok_decode_def by (rule line_body_safe [OF empty_body_line])

interpretation err_dec: safe_decoder err_decode
  by (rule line_body_safe [OF err_decode_line])

interpretation info_dec: safe_decoder info_decode
  by (rule line_body_safe [OF info_decode_line])

interpretation msg_dec: safe_decoder msg_decode
  by (rule msg_decode_safe)

text \<open>HMSG never changes its mind either, but it can panic, so it only has the weaker contract.\<close>

lemma hmsg_decode_grow:
  assumes "memchr_ok d" "hmsg_decode d b = Value r" "\<forall>k. r \<noteq> FrameTooShort k"
  shows "hmsg_decode d (b @ extra) = Value r"
proof -
  obtain m e it where b: "slice_spliterator d b CRLF = (m, e) # it"
    using assms(2,3) by (auto simp: hmsg_decode_def split: list.splits)
  obtain it' where "slice_spliterator d (b @ extra) CRLF = (m, e) # it'"
    using split_grow1 [OF assms(1) b] by metis
  with b show ?thesis
    using assms(2,3) unfolding hmsg_decode_def
    by (auto split: option.splits if_splits) (blast intro: slice_range_append)
qed

interpretation hmsg_dec: command_decoder hmsg_decode
  by unfold_locales (auto intro: hmsg_decode_grow)

subsection \<open>Decoded strings are strings\<close>

lemma msg_decode_utf8: "msg_decode d b = Value (Advance c n) \<Longrightarrow> utf8_server c"
  by (auto simp: msg_decode_def msg_try_from_def utf8_opt_iff
      split: list.splits option.splits sum.splits if_splits)

lemma hmsg_try_from_utf8: "hmsg_try_from d v = Inr h \<Longrightarrow> utf8_server (S_HMsg h)"
  by (auto simp: hmsg_try_from_def utf8_opt_iff
      split: option.splits sum.splits if_splits dest: parse_headers_utf8)

lemma hmsg_decode_utf8: "hmsg_decode d b = Value (Advance c n) \<Longrightarrow> utf8_server c"
  by (auto simp: hmsg_decode_def split: list.splits option.splits if_splits)
    (auto dest: hmsg_try_from_utf8 simp del: utf8_server.simps split: sum.splits)

lemma err_decode_utf8: "err_decode d b = Value (Advance c n) \<Longrightarrow> utf8_server c"
  by (auto simp: err_decode_def split: list.splits option.splits if_splits run.splits)

lemma info_decode_frame: "info_decode d b = Value (Advance c n) \<Longrightarrow> \<exists>i. c = S_Info i"
  by (auto simp: info_decode_def split: list.splits option.splits)

subsection \<open>MSG frames\<close>

text \<open>The wire form of a message body: metadata line, payload, CR LF.\<close>

definition msg_meta :: "msg \<Rightarrow> buf" where
  "msg_meta m = join_fields ([msg_subject m, msg_sid m] @
     (case msg_reply_to m of None \<Rightarrow> [] | Some r \<Rightarrow> [r]) @ [show_usize (msg_bytes m)])"

definition msg_frame :: "msg \<Rightarrow> buf" where
  "msg_frame m = msg_meta m @ CRLF @ msg_payload m @ CRLF"

definition wf_msg :: "msg \<Rightarrow> bool" where
  "wf_msg m \<longleftrightarrow> token (msg_subject m) \<and> token (msg_sid m) \<and>
     token_opt (msg_reply_to m) \<and>
     unat (msg_bytes m) = length (msg_payload m) \<and> no_crlf (msg_payload m)"

lemma msg_fields_frame:
  assumes "memchr_ok d" "wf_msg m"
  shows "msg_fields d (msg_meta m) p = Some
    \<lparr>mp_subject = msg_subject m, mp_sid = msg_sid m, mp_reply_to = msg_reply_to m,
     mp_bytes = show_usize (msg_bytes m), mp_payload = p\<rparr>"
  using assms(2)
  by (cases "msg_reply_to m")
    (auto simp: msg_fields_def msg_meta_def wf_msg_def char_spliterator_eq [OF assms(1)] fields_eval
      eval_nat_numeral)

lemma msg_decode_frame_lemma:
  assumes "memchr_ok d" "wf_msg m"
  shows "msg_decode d (msg_frame m @ rest) = Value (Advance (S_Msg m) (length (msg_frame m)))"
proof -
  have meta: "no_crlf (msg_meta m)"
    using assms(2) unfolding msg_meta_def wf_msg_def
    by (intro no_crlf_join) (cases "msg_reply_to m"; auto intro: tokenD)
  obtain it where it: "slice_spliterator d (msg_frame m @ rest) CRLF =
      (msg_meta m, length (msg_meta m) + 2) #
      (msg_payload m, length (msg_meta m) + length (msg_payload m) + 4) # it"
    using slice_spliterator_two [OF assms(1) meta, of "msg_payload m" rest] assms(2)
    by (auto simp: wf_msg_def msg_frame_def)
  show ?thesis
    using assms(2) unfolding msg_decode_def it
    by (simp add: msg_fields_frame [OF assms] msg_try_from_def wf_msg_def token_def msg_frame_def
        from_utf8_valid)
qed

text \<open>What was decoded is what the buffer begins with.\<close>

lemma msg_fields_join:
  assumes "memchr_ok d" "msg_fields d m p = Some v"
  shows "m = join_fields ([mp_subject v, mp_sid v] @
    (case mp_reply_to v of None \<Rightarrow> [] | Some r \<Rightarrow> [r]) @ [mp_bytes v]) \<and> mp_payload v = p"
proof -
  obtain f fs where f: "split_on SP m = f # fs" by (cases "split_on SP m") auto
  have j: "join_fields (split_on SP m) = m" by (rule join_split_on)
  consider g h where "fs = [g, h]" | g h i where "fs = [g, h, i]"
    using assms(2) f unfolding msg_fields_def char_spliterator_eq [OF assms(1)]
    by (cases fs rule: remdups_adj.cases; simp split: list.splits prod.splits)
      (auto split: list.splits elim!: field_items.elims)
  then show ?thesis
    using assms(2) f j unfolding msg_fields_def char_spliterator_eq [OF assms(1)]
    by cases (auto dest: split_on_drops simp: ac_simps)
qed

lemma msg_decode_sound_lemma:
  assumes d: "memchr_ok d" and r: "msg_decode d b = Value (Advance (S_Msg m) n)"
  shows "\<exists>digits. parse_usize digits = Some (msg_bytes m) \<and>
    take n b = join_fields ([msg_subject m, msg_sid m] @
      (case msg_reply_to m of None \<Rightarrow> [] | Some r \<Rightarrow> [r]) @ [digits]) @ CRLF @ msg_payload m @ CRLF \<and>
    length (msg_payload m) = unat (msg_bytes m)"
proof -
  obtain x ex p it where b: "slice_spliterator d b CRLF = (x, ex) # (p, n) # it"
    using r by (auto simp: msg_decode_def split: list.splits option.splits sum.splits)
  obtain v where v: "msg_fields d x p = Some v" "msg_try_from v = Inr m"
    using r b by (auto simp: msg_decode_def split: option.splits sum.splits)
  have 1: "b = x @ CRLF @ drop ex b" "ex = length x + 2" "no_crlf x"
    using slice_spliterator_ConsD [OF d b] by blast+
  obtain e' it' where 2: "slice_spliterator d (drop ex b) CRLF = (p, e') # it'" "n = ex + e'"
    using slice_spliterator_first [OF d 1(3), of "drop ex b"] b 1(1,2) by auto
  have 3: "drop ex b = p @ CRLF @ drop e' (drop ex b)" "e' = length p + 2"
    using slice_spliterator_ConsD [OF d 2(1)] by blast+
  have "b = x @ CRLF @ p @ CRLF @ drop e' (drop ex b)" using 1(1) 3(1) by metis
  then have "take n b = x @ CRLF @ p @ CRLF"
    using 1(2) 2(2) 3(2) by (metis append_assoc append_eq_conv_conj length_append length_CRLF
        group_cancel.add1)
  moreover have "x = join_fields ([mp_subject v, mp_sid v] @
      (case mp_reply_to v of None \<Rightarrow> [] | Some r \<Rightarrow> [r]) @ [mp_bytes v])" "mp_payload v = p"
    using msg_fields_join [OF d v(1)] by simp_all
  ultimately show ?thesis
    using v(2) by (intro exI [of _ "mp_bytes v"])
      (auto simp: msg_try_from_def split: option.splits if_splits)
qed

text \<open>The same for a message with headers; its last two bytes are not looked at.\<close>

lemma hmsg_fields_join:
  assumes "memchr_ok d" "hmsg_fields d m = Some (subject, sid, reply_to, hb, tb)"
  shows "m = join_fields ([subject, sid] @ (case reply_to of None \<Rightarrow> [] | Some r \<Rightarrow> [r]) @ [hb, tb])"
proof -
  have j: "join_fields (split_on SP m) = m" by (rule join_split_on)
  have "length (char_spliterator d m SP) \<in> {3, 4}"
    using assms(2) by (auto simp: hmsg_fields_def split: list.splits)
  then have "length (split_on SP m) = 4 \<or> length (split_on SP m) = 5"
    unfolding char_spliterator_eq [OF assms(1)] by auto
  then consider f g h i where "split_on SP m = [f, g, h, i]" | f g h i k where "split_on SP m = [f, g, h, i, k]"
    by (auto simp: eval_nat_numeral length_Suc_conv)
  then show ?thesis
    using assms(2) j unfolding hmsg_fields_def char_spliterator_eq [OF assms(1)]
    by cases (auto dest: split_on_drops simp: ac_simps)
qed

lemma hmsg_decode_sound:
  assumes d: "memchr_ok d" and r: "hmsg_decode d b = Value (Advance (S_HMsg h) n)"
  shows "\<exists>hb tb block. parse_usize hb = Some (hmsg_header_bytes h) \<and> parse_usize tb = Some (hmsg_total_bytes h) \<and>
    hmsg_header_bytes h \<le> hmsg_total_bytes h \<and>
    length block = unat (hmsg_header_bytes h) \<and>
    length (hmsg_payload h) = unat (hmsg_total_bytes h - hmsg_header_bytes h) \<and>
    parse_headers d block (length block) = Inr (hmsg_headers h) \<and>
    b = join_fields ([hmsg_subject h, hmsg_sid h] @ (case hmsg_reply_to h of None \<Rightarrow> [] | Some r \<Rightarrow> [r]) @ [hb, tb]) @
      CRLF @ block @ hmsg_payload h @ drop (n - 2) b \<and> 2 \<le> n"
proof -
  obtain x ex it where b: "slice_spliterator d b CRLF = (x, ex) # it"
    using r by (auto simp: hmsg_decode_def split: list.splits)
  obtain subject sid reply_to hb tb where f: "hmsg_fields d x = Some (subject, sid, reply_to, hb, tb)"
    using r b by (auto simp: hmsg_decode_def split: option.splits)
  have fu: "from_utf8 hb = Some u \<Longrightarrow> u = hb" "from_utf8 tb = Some u \<Longrightarrow> u = tb" for u
    by (auto simp: from_utf8_def split: if_splits)
  obtain hn tn where n: "parse_usize hb = Some hn" "parse_usize tb = Some tn" "\<not> tn < hn"
    and rest: "run_bind (slice_range b ex (ex + unat hn)) (\<lambda>headers.
        run_bind (slice_range b (ex + unat hn) (ex + unat tn)) (\<lambda>payload.
          case hmsg_try_from d \<lparr>hp_subject = subject, hp_sid = sid, hp_reply_to = reply_to,
              hp_header_bytes = hn, hp_total_bytes = tn, hp_headers = headers, hp_payload = payload\<rparr> of
            Inl e \<Rightarrow> Value (FatalError e)
          | Inr h \<Rightarrow> Value (Advance (S_HMsg h) (ex + unat tn + 2)))) = Value (Advance (S_HMsg h) n)"
    using r b f by (auto simp: hmsg_decode_def dest!: fu split: option.splits if_splits)
  let ?v = "\<lambda>headers payload. \<lparr>hp_subject = subject, hp_sid = sid, hp_reply_to = reply_to,
      hp_header_bytes = hn, hp_total_bytes = tn, hp_headers = headers, hp_payload = payload\<rparr>"
  from rest obtain headers payload where
    sl: "slice_range b ex (ex + unat hn) = Value headers"
      "slice_range b (ex + unat hn) (ex + unat tn) = Value payload"
    and c: "(case hmsg_try_from d (?v headers payload) of Inl e \<Rightarrow> Value (FatalError e)
      | Inr h \<Rightarrow> Value (Advance (S_HMsg h) (ex + unat tn + 2))) = Value (Advance (S_HMsg h) n)"
    unfolding run_bind_eq_Value by blast
  from c have t: "hmsg_try_from d (?v headers payload) = Inr h" and e: "n = ex + unat tn + 2"
    by (cases "hmsg_try_from d (?v headers payload)"; simp)+
  have x: "b = x @ CRLF @ drop ex b" using slice_spliterator_ConsD [OF d b] by blast
  have h: "headers = take (unat hn) (drop ex b)" "length headers = unat hn"
    and p: "payload = take (unat tn - unat hn) (drop (ex + unat hn) b)" "length payload = unat tn - unat hn"
    using sl by (auto simp: slice_range_Value)
  have "drop ex b = headers @ payload @ drop (n - 2) b"
    using h p e sl(2) by (simp add: slice_range_Value drop_drop [symmetric] add.commute del: drop_drop)
      (metis append_take_drop_id drop_drop add.commute le_add_diff_inverse)
  then have "b = x @ CRLF @ headers @ payload @ drop (n - 2) b" using x by metis
  moreover have "hmsg_subject h = subject \<and> hmsg_sid h = sid \<and> hmsg_reply_to h = reply_to \<and>
      hmsg_header_bytes h = hn \<and> hmsg_total_bytes h = tn \<and> hmsg_payload h = payload \<and>
      parse_headers d headers (length headers) = Inr (hmsg_headers h)"
    using t h(2) by (auto simp: hmsg_try_from_def from_utf8_def from_utf8_opt_def
        split: option.splits if_splits sum.splits)
  ultimately show ?thesis
    using n h(2) p(2) e hmsg_fields_join [OF d f]
    by (intro exI [of _ hb] exI [of _ tb] exI [of _ headers]) (simp add: unat_sub not_less)
qed

subsection \<open>HMSG frames\<close>

definition hmsg_meta :: "hmsg \<Rightarrow> buf" where
  "hmsg_meta h = join_fields ([hmsg_subject h, hmsg_sid h] @
     (case hmsg_reply_to h of None \<Rightarrow> [] | Some r \<Rightarrow> [r]) @
     [show_usize (hmsg_header_bytes h), show_usize (hmsg_total_bytes h)])"

definition hmsg_frame :: "hmsg \<Rightarrow> (header_name \<times> header_value) list \<Rightarrow> buf" where
  "hmsg_frame h kvs = hmsg_meta h @ CRLF @ header_block kvs @ hmsg_payload h @ CRLF"

definition wf_hmsg :: "hmsg \<Rightarrow> (header_name \<times> header_value) list \<Rightarrow> bool" where
  "wf_hmsg h kvs \<longleftrightarrow> token (hmsg_subject h) \<and> token (hmsg_sid h) \<and>
     token_opt (hmsg_reply_to h) \<and>
     unat (hmsg_header_bytes h) = length (header_block kvs) \<and>
     unat (hmsg_total_bytes h) = length (header_block kvs) + length (hmsg_payload h) \<and>
     (\<forall>(k, v) \<in> set kvs. plain_header k v) \<and>
     hmsg_headers h = fold (\<lambda>(k, v) m. push_header m k v) kvs Map.empty"

lemma hmsg_fields_frame:
  assumes "memchr_ok d" "wf_hmsg h kvs"
  shows "hmsg_fields d (hmsg_meta h) = Some (hmsg_subject h, hmsg_sid h, hmsg_reply_to h,
    show_usize (hmsg_header_bytes h), show_usize (hmsg_total_bytes h))"
  using assms(2)
  by (cases "hmsg_reply_to h")
    (auto simp: hmsg_fields_def hmsg_meta_def wf_hmsg_def char_spliterator_eq [OF assms(1)]
      fields_eval eval_nat_numeral)

lemma hmsg_meta_no_crlf: "wf_hmsg h kvs \<Longrightarrow> no_crlf (hmsg_meta h)"
  unfolding hmsg_meta_def wf_hmsg_def
  by (intro no_crlf_join) (cases "hmsg_reply_to h"; auto intro: tokenD)

lemma hmsg_try_from_frame:
  assumes "memchr_ok d" "wf_hmsg h kvs"
  shows "hmsg_try_from d
    \<lparr>hp_subject = hmsg_subject h, hp_sid = hmsg_sid h, hp_reply_to = hmsg_reply_to h,
     hp_header_bytes = hmsg_header_bytes h, hp_total_bytes = hmsg_total_bytes h,
     hp_headers = header_block kvs, hp_payload = hmsg_payload h\<rparr> = Inr h"
proof -
  have "hmsg_header_bytes h \<le> hmsg_total_bytes h"
    using assms(2) by (simp add: wf_hmsg_def word_le_nat_alt)
  moreover from this have "length (hmsg_payload h) = unat (hmsg_total_bytes h - hmsg_header_bytes h)"
    using assms(2) by (simp add: wf_hmsg_def unat_sub)
  moreover have "parse_headers d (header_block kvs) (unat (hmsg_header_bytes h)) =
      Inr (hmsg_headers h)"
    using assms parse_headers_block [OF assms(1)] by (simp add: wf_hmsg_def)
  ultimately show ?thesis
    using assms(2) by (simp add: hmsg_try_from_def wf_hmsg_def not_less)
qed

text \<open>
  Every way a frame can be cut by the network: short of its metadata line or of
  \<open>total_bytes\<close> bytes the decoder waits; from \<open>total_bytes\<close> bytes on, although the metadata
  line is not part of that count, it slices past the buffer and panics; once header block and
  payload are there it advances past the frame, whether or not the final CR LF has arrived.
\<close>

lemma hmsg_decode_cut_lemma:
  assumes d: "memchr_ok d" and wf: "wf_hmsg h kvs" and k: "k \<le> length (hmsg_frame h kvs)"
  shows "hmsg_decode d (take k (hmsg_frame h kvs)) =
    (if k < length (hmsg_meta h) + 2 \<or> k < unat (hmsg_total_bytes h) then Value (FrameTooShort None)
     else if k < length (hmsg_meta h) + 2 + unat (hmsg_total_bytes h) then Panic
     else Value (Advance (S_HMsg h) (length (hmsg_frame h kvs))))"
proof (cases "k < length (hmsg_meta h) + 2")
  case True
  then have "slice_spliterator d (take k (hmsg_frame h kvs)) CRLF = []"
    using no_crlf_cut_line [OF hmsg_meta_no_crlf [OF wf] True]
    by (simp add: slice_spliterator_Nil_iff [OF d] hmsg_frame_def)
  then show ?thesis using True by (simp add: hmsg_decode_def)
next
  case False
  define body where "body = take (k - (length (hmsg_meta h) + 2))
      (header_block kvs @ hmsg_payload h @ CRLF)"
  have b: "take k (hmsg_frame h kvs) = hmsg_meta h @ CRLF @ body"
    using False by (simp add: hmsg_frame_def body_def)
  have lb: "length body = k - (length (hmsg_meta h) + 2)"
    using k False by (simp add: body_def hmsg_frame_def)
  let ?H = "unat (hmsg_header_bytes h)" and ?T = "unat (hmsg_total_bytes h)"
  have H: "?H = length (header_block kvs)" and
    T: "?T = length (header_block kvs) + length (hmsg_payload h)"
    using wf by (simp_all add: wf_hmsg_def)
  then have nlt: "\<not> hmsg_total_bytes h < hmsg_header_bytes h" by (simp add: word_less_nat_alt)
  obtain it where it: "slice_spliterator d (hmsg_meta h @ CRLF @ body) CRLF =
      (hmsg_meta h, length (hmsg_meta h) + 2) # it"
    using slice_spliterator_first [OF d hmsg_meta_no_crlf [OF wf]] by blast
  let ?b = "hmsg_meta h @ CRLF @ body" and ?m = "length (hmsg_meta h) + 2"
  have lk: "length ?b = k" using False lb by simp
  have red: "hmsg_decode d ?b =
    (if k < ?T then Value (FrameTooShort None)
     else run_bind (slice_range ?b ?m (?m + ?H)) (\<lambda>headers.
       run_bind (slice_range ?b (?m + ?H) (?m + ?T)) (\<lambda>payload.
       case hmsg_try_from d
          \<lparr>hp_subject = hmsg_subject h, hp_sid = hmsg_sid h, hp_reply_to = hmsg_reply_to h,
           hp_header_bytes = hmsg_header_bytes h, hp_total_bytes = hmsg_total_bytes h,
           hp_headers = headers, hp_payload = payload\<rparr> of
         Inl e \<Rightarrow> Value (FatalError e)
       | Inr h' \<Rightarrow> Value (Advance (S_HMsg h') (?m + ?T + 2)))))"
    using nlt lk
    by (simp add: hmsg_decode_def it hmsg_fields_frame [OF d wf] from_utf8_valid
        del: length_append add_2_eq_Suc add_2_eq_Suc')
  show ?thesis
  proof (cases "k < ?m + ?T")
    case True
    then have "slice_range ?b (?m + ?H) (?m + ?T) = Panic"
      using lk by (simp add: slice_range_def del: length_append)
    then show ?thesis using True False unfolding b red by (simp del: add_2_eq_Suc add_2_eq_Suc')
  next
    case full: False
    then obtain t where t: "body = header_block kvs @ hmsg_payload h @ t"
      using T lb False by (simp add: body_def take_append)
    have s1: "slice_range ?b ?m (?m + ?H) = Value (header_block kvs)"
      using H by (simp add: slice_range_def t)
    have s2: "slice_range ?b (?m + ?H) (?m + ?T) = Value (hmsg_payload h)"
      using H T by (simp add: slice_range_def t)
    show ?thesis
      using full False T hmsg_try_from_frame [OF d wf] unfolding b red s1 s2
      by (simp add: hmsg_frame_def)
  qed
qed

end
