(* ===== verification/Client_Decoders.thy ===== *)
theory Client_Decoders
  imports Command_Decoder
begin

text \<open>
  The body decoders of the commands a client sends: \<open>decoding/ping.rs\<close>, \<open>pong.rs\<close>,
  \<open>connect.rs\<close>, \<open>sub.rs\<close>, \<open>unsub.rs\<close>, \<open>publish.rs\<close> and \<open>hpub.rs\<close>. As on the server side each
  definition follows its \<open>decode_body\<close>, the \<open>TryFrom\<close> conversions are separate functions, all
  decoders satisfy \<open>command_decoder\<close> and all but \<open>HPUB\<close> satisfy \<open>safe_decoder\<close>.
\<close>

type_synonym client_body = "(client_command, client_decode_error) body_result"

subsection \<open>PING and PONG\<close>

definition ping_client_decode :: "crates \<Rightarrow> buf \<Rightarrow> client_body" where
  "ping_client_decode = empty_body C_Ping"

definition pong_client_decode :: "crates \<Rightarrow> buf \<Rightarrow> client_body" where
  "pong_client_decode = empty_body C_Pong"

subsection \<open>CONNECT\<close>

definition connect_decode :: "crates \<Rightarrow> buf \<Rightarrow> client_body" where
  "connect_decode d buffer =
     (case slice_spliterator d buffer CRLF of
        [] \<Rightarrow> Value (FrameTooShort None)
      | (options, len) # _ \<Rightarrow>
          (case json_connect d options of None \<Rightarrow> Value (FatalError CE_BadConnect)
           | Some c \<Rightarrow> Value (Advance (C_Connect c) len)))"

lemma connect_decode_line:
  "line_body connect_decode
     (\<lambda>d l. Some (case json_connect d l of None \<Rightarrow> Inl CE_BadConnect | Some c \<Rightarrow> Inr (C_Connect c)))
     (FrameTooShort None)"
  unfolding line_body_def connect_decode_def by (auto split: list.splits option.splits)

subsection \<open>SUB\<close>

record sub_parts =
  sp_subject :: buf
  sp_queue_group :: "buf option"
  sp_sid :: buf

definition sub_try_from :: "sub_parts \<Rightarrow> client_decode_error + subscribe" where
  "sub_try_from v =
     (case from_utf8 (sp_subject v) of None \<Rightarrow> Inl CE_BadSub
      | Some subject \<Rightarrow> (case from_utf8_opt (sp_queue_group v) of None \<Rightarrow> Inl CE_BadSub
      | Some queue_group \<Rightarrow> (case from_utf8 (sp_sid v) of None \<Rightarrow> Inl CE_BadSub
      | Some sid \<Rightarrow>
          Inr \<lparr>sub_subject = subject, sub_queue_group = queue_group, sub_sid = sid\<rparr>)))"

definition sub_fields :: "crates \<Rightarrow> buf \<Rightarrow> sub_parts option" where
  "sub_fields d message =
     (case char_spliterator d message SP of
        [(subject, _), (queue, last_pos)] \<Rightarrow>
          Some \<lparr>sp_subject = subject, sp_queue_group = Some queue, sp_sid = drop last_pos message\<rparr>
      | [(subject, last_pos)] \<Rightarrow>
          Some \<lparr>sp_subject = subject, sp_queue_group = None, sp_sid = drop last_pos message\<rparr>
      | _ \<Rightarrow> None)"

definition sub_decode :: "crates \<Rightarrow> buf \<Rightarrow> client_body" where
  "sub_decode d buffer =
     (case slice_spliterator d buffer CRLF of
        [] \<Rightarrow> Value (FrameTooShort None)
      | (message, end_pos) # _ \<Rightarrow>
          (case sub_fields d message of None \<Rightarrow> Value (FatalError CE_BadSub)
           | Some parts \<Rightarrow> (case sub_try_from parts of Inl e \<Rightarrow> Value (FatalError e)
               | Inr s \<Rightarrow> Value (Advance (C_Subscribe s) end_pos))))"

lemma sub_decode_line:
  "line_body sub_decode
     (\<lambda>d l. Some (case sub_fields d l of None \<Rightarrow> Inl CE_BadSub
        | Some parts \<Rightarrow> map_sum id C_Subscribe (sub_try_from parts))) (FrameTooShort None)"
  unfolding line_body_def sub_decode_def by (auto split: list.splits option.splits sum.splits)

subsection \<open>UNSUB\<close>

record unsub_parts =
  up_sid :: buf
  up_max_msgs :: "buf option"

text \<open>An absent limit is no error, a limit that is not a positive number is.\<close>

definition unsub_try_from :: "unsub_parts \<Rightarrow> client_decode_error + unsubscribe" where
  "unsub_try_from v =
     (case from_utf8 (up_sid v) of None \<Rightarrow> Inl CE_BadUnsub
      | Some sid \<Rightarrow> (case from_utf8_opt (up_max_msgs v) of None \<Rightarrow> Inl CE_BadUnsub
      | Some None \<Rightarrow> Inr \<lparr>unsub_sid = sid, unsub_max_msgs = None\<rparr>
      | Some (Some digits) \<Rightarrow> (case parse_nonzero digits of None \<Rightarrow> Inl CE_BadUnsub
          | Some n \<Rightarrow> Inr \<lparr>unsub_sid = sid, unsub_max_msgs = Some n\<rparr>)))"

definition unsub_fields :: "crates \<Rightarrow> buf \<Rightarrow> unsub_parts option" where
  "unsub_fields d metadata =
     (case char_spliterator d metadata SP of
        [(sid, last_pos)] \<Rightarrow> Some \<lparr>up_sid = sid, up_max_msgs = Some (drop last_pos metadata)\<rparr>
      | [] \<Rightarrow> Some \<lparr>up_sid = metadata, up_max_msgs = None\<rparr>
      | _ \<Rightarrow> None)"

definition unsub_decode :: "crates \<Rightarrow> buf \<Rightarrow> client_body" where
  "unsub_decode d buffer =
     (case slice_spliterator d buffer CRLF of
        [] \<Rightarrow> Value (FrameTooShort None)
      | (metadata, end_pos) # _ \<Rightarrow>
          (case unsub_fields d metadata of None \<Rightarrow> Value (FatalError CE_BadUnsub)
           | Some parts \<Rightarrow> (case unsub_try_from parts of Inl e \<Rightarrow> Value (FatalError e)
               | Inr u \<Rightarrow> Value (Advance (C_Unsubscribe u) end_pos))))"

lemma unsub_decode_line:
  "line_body unsub_decode
     (\<lambda>d l. Some (case unsub_fields d l of None \<Rightarrow> Inl CE_BadUnsub
        | Some parts \<Rightarrow> map_sum id C_Unsubscribe (unsub_try_from parts))) (FrameTooShort None)"
  unfolding line_body_def unsub_decode_def by (auto split: list.splits option.splits sum.splits)

subsection \<open>PUB\<close>

record pub_parts =
  pp_subject :: buf
  pp_reply_to :: "buf option"
  pp_bytes :: usize
  pp_payload :: buf

definition pub_try_from :: "pub_parts \<Rightarrow> client_decode_error + publish" where
  "pub_try_from v =
     (case from_utf8 (pp_subject v) of None \<Rightarrow> Inl CE_BadPub
      | Some subject \<Rightarrow> (case from_utf8_opt (pp_reply_to v) of None \<Rightarrow> Inl CE_BadPub
      | Some reply_to \<Rightarrow>
          (if unat (pp_bytes v) \<noteq> length (pp_payload v) then Inl CE_BadPub
           else Inr \<lparr>pub_subject = subject, pub_reply_to = reply_to, pub_bytes = pp_bytes v,
                     pub_payload = pp_payload v\<rparr>)))"

definition pub_fields :: "crates \<Rightarrow> buf \<Rightarrow> (buf \<times> buf option \<times> buf) option" where
  "pub_fields d metadata =
     (case char_spliterator d metadata SP of
        [(subject, _), (reply_to, last_pos)] \<Rightarrow>
          Some (subject, Some reply_to, drop last_pos metadata)
      | [(subject, last_pos)] \<Rightarrow> Some (subject, None, drop last_pos metadata)
      | _ \<Rightarrow> None)"

definition publish_decode :: "crates \<Rightarrow> buf \<Rightarrow> client_body" where
  "publish_decode d buffer =
     (case slice_spliterator d buffer CRLF of
        [] \<Rightarrow> Value (FrameTooShort None)
      | (metadata, _) # crlf_iter \<Rightarrow>
     (case pub_fields d metadata of None \<Rightarrow> Value (FatalError CE_BadPub)
      | Some (subject, reply_to, bytes_field) \<Rightarrow>
     (case from_utf8 bytes_field of None \<Rightarrow> Value (FatalError CE_BadPub)
      | Some decoded_bytes \<Rightarrow>
     (case parse_usize decoded_bytes of None \<Rightarrow> Value (FatalError CE_BadPub)
      | Some bytes \<Rightarrow>
     (case crlf_iter of [] \<Rightarrow> Value (FrameTooShort None)
      | (payload, end_pos) # _ \<Rightarrow>
     (case pub_try_from \<lparr>pp_subject = subject, pp_reply_to = reply_to, pp_bytes = bytes,
                         pp_payload = payload\<rparr> of
        Inl e \<Rightarrow> Value (FatalError e)
      | Inr pb \<Rightarrow> Value (Advance (C_Publish pb) end_pos)))))))"

subsection \<open>HPUB\<close>

record hpub_parts =
  hpp_subject :: buf
  hpp_reply_to :: "buf option"
  hpp_header_bytes :: usize
  hpp_total_bytes :: usize
  hpp_headers :: buf
  hpp_payload :: buf

definition hpub_try_from :: "crates \<Rightarrow> hpub_parts \<Rightarrow> client_decode_error + hpublish" where
  "hpub_try_from d v =
     (case from_utf8 (hpp_subject v) of None \<Rightarrow> Inl CE_BadHPub
      | Some subject \<Rightarrow> (case from_utf8_opt (hpp_reply_to v) of None \<Rightarrow> Inl CE_BadHPub
      | Some reply_to \<Rightarrow>
          (if hpp_total_bytes v < hpp_header_bytes v \<or>
              length (hpp_payload v) \<noteq> unat (hpp_total_bytes v - hpp_header_bytes v)
           then Inl CE_BadHPub
           else case parse_headers d (hpp_headers v) (unat (hpp_header_bytes v)) of
               Inl _ \<Rightarrow> Inl CE_BadHPub
             | Inr headers \<Rightarrow>
                 Inr \<lparr>hpub_subject = subject, hpub_reply_to = reply_to,
                      hpub_header_bytes = hpp_header_bytes v,
                      hpub_total_bytes = hpp_total_bytes v,
                      hpub_headers = headers, hpub_payload = hpp_payload v\<rparr>)))"

definition hpub_fields :: "crates \<Rightarrow> buf \<Rightarrow> (buf \<times> buf option \<times> buf \<times> buf) option" where
  "hpub_fields d metadata =
     (case char_spliterator d metadata SP of
        [(subject, _), (reply_to, _), (header_bytes, last_pos)] \<Rightarrow>
          Some (subject, Some reply_to, header_bytes, drop last_pos metadata)
      | [(subject, _), (header_bytes, last_pos)] \<Rightarrow>
          Some (subject, None, header_bytes, drop last_pos metadata)
      | _ \<Rightarrow> None)"

text \<open>The debug output \<open>dbg!(std::str::from_utf8(b).unwrap())\<close>: it panics on other bytes.\<close>

definition dbg_utf8 :: "buf \<Rightarrow> unit run" where
  "dbg_utf8 b = (case from_utf8 b of None \<Rightarrow> Panic | Some _ \<Rightarrow> Value ())"

definition hpub_decode :: "crates \<Rightarrow> buf \<Rightarrow> client_body" where
  "hpub_decode d buffer =
     (case slice_spliterator d buffer CRLF of
        [] \<Rightarrow> Value (FrameTooShort None)
      | (metadata, metadata_len) # _ \<Rightarrow>
     (case hpub_fields d metadata of
        None \<Rightarrow> Value (FrameTooShort None)
      | Some (subject, reply_to, header_field, total_field) \<Rightarrow>
     (case (from_utf8 header_field, from_utf8 total_field) of
        (Some hs, Some ts) \<Rightarrow>
          (case (parse_usize hs, parse_usize ts) of
             (Some header_bytes, Some total_bytes) \<Rightarrow>
               (if total_bytes < header_bytes then Value (FatalError CE_BadHPub)
                else if length buffer < unat total_bytes then Value (FrameTooShort None)
                else
                  run_bind (slice_range buffer metadata_len (metadata_len + unat header_bytes))
                    (\<lambda>headers. run_bind (dbg_utf8 headers) (\<lambda>_.
                  run_bind (slice_range buffer (metadata_len + unat header_bytes)
                              (metadata_len + unat total_bytes))
                    (\<lambda>payload. run_bind (dbg_utf8 payload) (\<lambda>_.
                  (case hpub_try_from d
                      \<lparr>hpp_subject = subject, hpp_reply_to = reply_to,
                       hpp_header_bytes = header_bytes, hpp_total_bytes = total_bytes,
                       hpp_headers = headers, hpp_payload = payload\<rparr> of
                     Inl _ \<Rightarrow> Value (FatalError CE_BadHPub)
                   | Inr h \<Rightarrow>
                       Value (Advance (C_HPublish h) (metadata_len + unat total_bytes + 2))))))))
           | _ \<Rightarrow> Value (FatalError CE_BadHPub))
      | _ \<Rightarrow> Value (FatalError CE_BadHPub))))"

subsection \<open>The trait's contract\<close>

lemma publish_decode_grow:
  assumes d: "memchr_ok d" and r: "publish_decode d b = Value r" "\<forall>k. r \<noteq> FrameTooShort k"
  shows "publish_decode d (b @ extra) = Value r"
proof -
  obtain m e it where b: "slice_spliterator d b CRLF = (m, e) # it"
    using r by (auto simp: publish_decode_def split: list.splits)
  obtain t where "slice_spliterator d (b @ extra) CRLF = (m, e) # it @ t"
    using slice_spliterator_append [OF d, of b extra] b by auto
  with b r show ?thesis
    by (cases it) (auto simp: publish_decode_def split: option.splits sum.splits prod.splits list.splits)
qed

lemma publish_decode_safe: "safe_decoder publish_decode"
proof
  fix d b f n
  assume d: "memchr_ok d" and r: "publish_decode d b = Value (Advance f n)"
  obtain x y it where b: "slice_spliterator d b CRLF = x # (y, n) # it"
    using r by (auto simp: publish_decode_def split: list.splits option.splits sum.splits)
  show "0 < n \<and> n \<le> length b" by (rule split_bounds2 [OF d b])
next
  fix d b show "publish_decode d b \<noteq> Panic"
    by (auto simp: publish_decode_def split: list.splits option.splits sum.splits)
qed (auto intro: publish_decode_grow)

lemma hpub_decode_grow:
  assumes "memchr_ok d" "hpub_decode d b = Value r" "\<forall>k. r \<noteq> FrameTooShort k"
  shows "hpub_decode d (b @ extra) = Value r"
proof -
  obtain m e it where b: "slice_spliterator d b CRLF = (m, e) # it"
    using assms(2,3) by (auto simp: hpub_decode_def split: list.splits)
  obtain it' where "slice_spliterator d (b @ extra) CRLF = (m, e) # it'"
    using split_grow1 [OF assms(1) b] by metis
  with b show ?thesis
    using assms(2,3) unfolding hpub_decode_def
    by (auto split: option.splits if_splits) (blast intro: slice_range_append)
qed

interpretation ping_client: safe_decoder ping_client_decode
  unfolding ping_client_decode_def by (rule line_body_safe [OF empty_body_line])

interpretation pong_client: safe_decoder pong_client_decode
  unfolding pong_client_decode_def by (rule line_body_safe [OF empty_body_line])

interpretation connect_dec: safe_decoder connect_decode
  by (rule line_body_safe [OF connect_decode_line])

interpretation sub_dec: safe_decoder sub_decode
  by (rule line_body_safe [OF sub_decode_line])

interpretation unsub_dec: safe_decoder unsub_decode
  by (rule line_body_safe [OF unsub_decode_line])

interpretation publish_dec: safe_decoder publish_decode
  by (rule publish_decode_safe)

interpretation hpub_dec: command_decoder hpub_decode
  by unfold_locales (auto intro: hpub_decode_grow)

subsection \<open>Decoded strings are strings\<close>

lemma sub_decode_utf8: "sub_decode d b = Value (Advance c n) \<Longrightarrow> utf8_client c"
  by (auto simp: sub_decode_def sub_try_from_def utf8_opt_iff
      split: list.splits option.splits sum.splits)

lemma unsub_decode_utf8: "unsub_decode d b = Value (Advance c n) \<Longrightarrow> utf8_client c"
  by (auto simp: unsub_decode_def unsub_try_from_def
      split: list.splits option.splits sum.splits)

lemma publish_decode_utf8: "publish_decode d b = Value (Advance c n) \<Longrightarrow> utf8_client c"
  by (auto simp: publish_decode_def pub_try_from_def utf8_opt_iff
      split: list.splits option.splits sum.splits if_splits)

lemma hpub_try_from_utf8: "hpub_try_from d v = Inr h \<Longrightarrow> utf8_client (C_HPublish h)"
  by (auto simp: hpub_try_from_def utf8_opt_iff
      split: option.splits sum.splits if_splits dest: parse_headers_utf8)

lemma hpub_decode_utf8: "hpub_decode d b = Value (Advance c n) \<Longrightarrow> utf8_client c"
  by (auto simp: hpub_decode_def split: list.splits option.splits if_splits)
    (auto dest: hpub_try_from_utf8 simp del: utf8_client.simps split: sum.splits)

end
