(* ===== verification/Decoder.thy ===== *)
theory Decoder
  imports Server_Decoders Client_Decoders
begin

text \<open>
  \<open>nats_codec/src/decoder.rs\<close>: the framing loop both codecs share and their tables of command
  decoders. The model returns the result together with the receive buffer after the call; a
  panic of the body decoder or of \<open>advance\<close> is \<open>Panic\<close>. The locale \<open>decoder_table\<close> states
  what the loop needs of a table (every entry satisfies the trait's contract); its lemmas are
  proved once and interpreted for the server's and the client's table.
\<close>

subsection \<open>The loop\<close>

text \<open>The trait \<open>CommonDecodeError\<close>: the two errors of the loop itself.\<close>

record 'e common_decode_error =
  exceeds_short_length :: 'e
  unknown_command :: 'e

definition client_common_errors :: "client_decode_error common_decode_error" where
  "client_common_errors =
     \<lparr>exceeds_short_length = CE_ExceedsSoftLength, unknown_command = CE_UnknownCommand\<rparr>"

definition server_common_errors :: "server_decode_error common_decode_error" where
  "server_common_errors =
     \<lparr>exceeds_short_length = SE_ExceedsSoftLength, unknown_command = SE_UnknownCommand\<rparr>"

type_synonym ('t, 'e) decode_result = "(('e + 't option) \<times> buf) run"
type_synonym ('t, 'e) table = "(buf \<times> (crates \<Rightarrow> buf \<Rightarrow> ('t, 'e) body_result)) list"

fun try_decoders ::
  "crates \<Rightarrow> 'e \<Rightarrow> nat \<Rightarrow> buf \<Rightarrow> ('t, 'e) table \<Rightarrow> ('t, 'e) decode_result" where
  "try_decoders d unknown first_newline src [] =
     run_bind (buf_advance d src (first_newline + 1)) (\<lambda>src'. Value (Inl unknown, src'))"
| "try_decoders d unknown first_newline src ((prefix, decode_body) # decoders) =
     (if length src < length prefix then Value (Inr None, src)
      else if \<not> eq_ignore_ascii_case (take (length prefix) src) prefix
      then try_decoders d unknown first_newline src decoders
      else run_bind (decode_body d (drop (length prefix) src)) (\<lambda>r.
        case r of
          Advance frame consume \<Rightarrow>
            run_bind (buf_advance d src (consume + length prefix))
              (\<lambda>src'. Value (Inr (Some frame), src'))
        | FatalError e \<Rightarrow> Value (Inl e, src)
        | FrameTooShort _ \<Rightarrow> Value (Inr None, src)))"

definition decoding ::
  "crates \<Rightarrow> 'e common_decode_error \<Rightarrow> ('t, 'e) table \<Rightarrow> buf \<Rightarrow> ('t, 'e) decode_result" where
  "decoding d errs decoders src =
     (case memmem_find d (take (min (length src) BUFSIZE_LIMIT) src) CRLF of
        None \<Rightarrow>
          (if length src < BUFSIZE_LIMIT then Value (Inr None, src)
           else Value (Inl (exceeds_short_length errs), src))
      | Some first_newline \<Rightarrow> try_decoders d (unknown_command errs) first_newline src decoders)"

definition server_table :: "(server_command, server_decode_error) table" where
  "server_table =
     [(''PING'', ping_server_decode), (''PONG'', pong_server_decode), (''HMSG '', hmsg_decode),
      (''MSG '', msg_decode), (''+OK'', ok_decode), (''-ERR '', err_decode),
      (''INFO '', info_decode)]"

definition client_table :: "(client_command, client_decode_error) table" where
  "client_table =
     [(''PING'', ping_client_decode), (''PONG'', pong_client_decode), (''HPUB '', hpub_decode),
      (''PUB '', publish_decode), (''SUB '', sub_decode), (''UNSUB '', unsub_decode),
      (''CONNECT '', connect_decode)]"

definition server_decode ::
  "crates \<Rightarrow> buf \<Rightarrow> (server_command, server_decode_error) decode_result" where
  "server_decode d src = decoding d server_common_errors server_table src"

definition client_decode ::
  "crates \<Rightarrow> buf \<Rightarrow> (client_command, client_decode_error) decode_result" where
  "client_decode d src = decoding d client_common_errors client_table src"

subsection \<open>The search for the first line\<close>

lemma find_first_line:
  assumes "memchr_ok d"
  shows "memmem_find d (take (min (length src) BUFSIZE_LIMIT) src) CRLF =
    map_option (length \<circ> fst) (break_crlf (take BUFSIZE_LIMIT src))"
proof -
  have "take (min (length src) BUFSIZE_LIMIT) src = take BUFSIZE_LIMIT src"
    by (simp add: min_def)
  then show ?thesis
    using find_occurs_eq_break [of "take BUFSIZE_LIMIT src"] by (simp only: memmem_find_ok [OF assms])
qed

text \<open>The loop in terms of the first line of the clamped buffer.\<close>

lemma decoding_eq:
  "memchr_ok d \<Longrightarrow> decoding d errs table src =
     (case break_crlf (take BUFSIZE_LIMIT src) of
        None \<Rightarrow> (if length src < BUFSIZE_LIMIT then Value (Inr None, src)
                 else Value (Inl (exceeds_short_length errs), src))
      | Some (a, _) \<Rightarrow> try_decoders d (unknown_command errs) (length a) src table)"
  unfolding decoding_def find_first_line by (simp split: option.splits prod.splits)

lemma break_crlf_take:
  "break_crlf (take k s) = Some (a, b) \<Longrightarrow> \<exists>c. break_crlf s = Some (a, c)"
  using break_crlf_append [of "take k s" a b "drop k s"] by auto

lemma break_crlf_take_grow:
  assumes "break_crlf (take k s) = Some (a, b)"
  shows "\<exists>c. break_crlf (take k (s @ extra)) = Some (a, c)"
  using break_crlf_append [OF assms, of "take (k - length s) extra"] by auto

lemma length_break_crlf: "break_crlf s = Some (a, b) \<Longrightarrow> length a + 2 \<le> length s"
  by (simp add: break_crlf_Some)

subsection \<open>The contract of a table\<close>

text \<open>
  A prefix has no CR, so the CR LF the loop has found lies in the body it hands on; this is
  what lets a decoder such as \<open>INFO\<close> treat a missing CR LF as an error.
\<close>

lemma body_has_crlf:
  assumes "break_crlf src = Some (a, b)" "eq_ignore_ascii_case (take (length p) src) p"
    and "CR \<notin> set p"
  shows "\<not> no_crlf (drop (length p) src)"
proof
  have low: "to_ascii_lowercase c = CR \<longleftrightarrow> c = CR" for c by (rule lowercase_low) simp
  assume n: "no_crlf (drop (length p) src)"
  have src: "src = a @ CRLF @ b" using assms(1) by (simp add: break_crlf_Some)
  have "CR \<in> set xs \<longleftrightarrow> CR \<in> set (map to_ascii_lowercase xs)" for xs
    unfolding set_map image_iff using low by metis
  then have "CR \<notin> set (take (length p) src)"
    using assms(2,3) by (metis eq_ignore_ascii_case_def)
  moreover have "CR \<in> set (take (length p) src)" if "length a < length p"
  proof -
    have "take (length p) src = a @ CR # take (length p - length a - 1) (LF # b)"
      using that by (simp add: src CRLF_def take_Cons')
    then show ?thesis by simp
  qed
  ultimately have "length p \<le> length a" by force
  then have "drop (length p) src = drop (length p) a @ CRLF @ b" by (simp add: src)
  then have "occurs_at (drop (length p) src) CRLF (length (drop (length p) a))"
    by (simp add: occurs_at_def)
  with n show False by (simp only: no_crlf_iff)
qed

definition growing_table :: "('t, 'e) table \<Rightarrow> bool" where
  "growing_table table \<longleftrightarrow>
     (\<forall>(p, dec) \<in> set table. command_decoder dec \<and> CR \<notin> set p \<and> p \<noteq> [])"

lemma growing_table_Cons:
  "growing_table ((p, dec) # ds) \<longleftrightarrow>
     command_decoder dec \<and> CR \<notin> set p \<and> p \<noteq> [] \<and> growing_table ds"
  by (auto simp: growing_table_def)

lemma growing_table_Nil [simp]: "growing_table []"
  by (simp add: growing_table_def)

text \<open>A final result of the loop stays when bytes arrive; only the rest of the buffer grows.\<close>

lemma try_decoders_grow:
  assumes "memchr_ok d" "bytes_ok d" "break_crlf src = Some (a, b)"
  shows "growing_table ds \<Longrightarrow> try_decoders d u (length a) src ds = Value (r, src') \<Longrightarrow> r \<noteq> Inr None \<Longrightarrow>
    try_decoders d u (length a) (src @ extra) ds = Value (r, src' @ extra)"
proof (induction ds)
  case Nil
  then show ?case using assms(2) length_break_crlf [OF assms(3)] by auto
next
  case (Cons e ds)
  obtain p dec where e: "e = (p, dec)" by force
  with Cons.prems(1) have p: "command_decoder dec" "CR \<notin> set p" by (simp_all add: growing_table_Cons)
  have len: "length p \<le> length src" using Cons.prems(2,3) e by (auto split: if_splits)
  show ?case
  proof (cases "eq_ignore_ascii_case (take (length p) src) p")
    case False
    then show ?thesis using Cons len e by (simp add: growing_table_Cons)
  next
    case True
    have crlf: "\<not> no_crlf (drop (length p) src)" by (rule body_has_crlf [OF assms(3) True p(2)])
    obtain x where x: "dec d (drop (length p) src) = Value x"
      using Cons.prems(2) True len e by (cases "dec d (drop (length p) src)") auto
    then have "\<forall>k. x \<noteq> FrameTooShort k" using Cons.prems(2,3) True len e by (cases x) auto
    note x = x this
    then have "dec d (drop (length p) src @ extra) = Value x"
      using command_decoder.advance_grow [OF p(1) assms(1)]
        command_decoder.fatal_grow [OF p(1) assms(1) crlf] by (cases x) auto
    with x True len e Cons.prems(2) assms(2) show ?thesis
      by (cases x) (auto split: if_splits)
  qed
qed

text \<open>What is left of the buffer, for each kind of result.\<close>

lemma try_decoders_rest:
  assumes "bytes_ok d"
  shows "growing_table ds \<Longrightarrow> try_decoders d u k src ds = Value (r, src') \<Longrightarrow>
    (case r of Inr None \<Rightarrow> src' = src
     | Inr (Some f) \<Rightarrow> \<exists>n. 0 < n \<and> n \<le> length src \<and> src' = drop n src
     | Inl e \<Rightarrow> src' = src \<or> e = u \<and> src' = drop (k + 1) src)"
proof (induction ds)
  case Nil
  then show ?case using assms by (auto split: if_splits)
next
  case (Cons e ds)
  obtain p dec where e: "e = (p, dec)" by force
  with Cons.prems(1) have "p \<noteq> []" by (simp add: growing_table_Cons)
  show ?case
  proof (cases "length p \<le> length src \<and> eq_ignore_ascii_case (take (length p) src) p")
    case False
    then show ?thesis using Cons e by (auto simp: growing_table_Cons split: if_splits)
  next
    case True
    obtain x where x: "dec d (drop (length p) src) = Value x"
      using Cons.prems(2) True e by (cases "dec d (drop (length p) src)") auto
    show ?thesis using Cons.prems(2) True x e assms \<open>p \<noteq> []\<close>
      by (cases x) (auto split: if_splits intro: exI [of _ "_ + length p"])
  qed
qed

locale growing_decoder =
  fixes dec :: "crates \<Rightarrow> buf \<Rightarrow> ('t, 'e) decode_result"
  assumes final_grow:
    "memchr_ok d \<Longrightarrow> bytes_ok d \<Longrightarrow> dec d src = Value (r, src') \<Longrightarrow> r \<noteq> Inr None \<Longrightarrow>
     dec d (src @ extra) = Value (r, src' @ extra)"
  and frame_consumes:
    "bytes_ok d \<Longrightarrow> dec d src = Value (Inr (Some f), src') \<Longrightarrow> length src' < length src"
  and wait_keeps: "bytes_ok d \<Longrightarrow> dec d src = Value (Inr None, src') \<Longrightarrow> src' = src"
  and error_shrinks: "bytes_ok d \<Longrightarrow> dec d src = Value (Inl e, src') \<Longrightarrow> length src' \<le> length src"
  and empty_waits: "memchr_ok d \<Longrightarrow> dec d [] = Value (Inr None, [])"

locale decoder_table =
  fixes table :: "('t, 'e) table" and errs :: "'e common_decode_error"
  assumes growing: "growing_table table"
begin

lemma decoding_grow:
  assumes d: "memchr_ok d" "bytes_ok d" and r: "decoding d errs table src = Value (r, src')"
    and n: "r \<noteq> Inr None"
  shows "decoding d errs table (src @ extra) = Value (r, src' @ extra)"
proof (cases "break_crlf (take BUFSIZE_LIMIT src)")
  case None
  with r n have l: "BUFSIZE_LIMIT \<le> length src" and r': "r = Inl (exceeds_short_length errs)" "src' = src"
    by (auto simp: decoding_eq [OF d(1)] split: if_splits)
  then have "take BUFSIZE_LIMIT (src @ extra) = take BUFSIZE_LIMIT src" by simp
  with None l r' show ?thesis by (simp add: decoding_eq [OF d(1)])
next
  case (Some ab)
  obtain a b where ab: "ab = (a, b)" by force
  obtain c where c: "break_crlf (take BUFSIZE_LIMIT (src @ extra)) = Some (a, c)"
    using break_crlf_take_grow Some ab by blast
  obtain b' where b': "break_crlf src = Some (a, b')" using break_crlf_take Some ab by blast
  have "try_decoders d (unknown_command errs) (length a) src table = Value (r, src')"
    using r Some ab by (simp add: decoding_eq [OF d(1)])
  from try_decoders_grow [OF d b' growing this n] show ?thesis
    unfolding decoding_eq [OF d(1)] c by simp
qed

lemma decoding_rest:
  assumes d: "bytes_ok d" and r: "decoding d errs table src = Value (r, src')"
  shows "case r of Inr None \<Rightarrow> src' = src
     | Inr (Some f) \<Rightarrow> \<exists>n. 0 < n \<and> n \<le> length src \<and> src' = drop n src
     | Inl e \<Rightarrow> src' = src \<or> e = unknown_command errs \<and> (\<exists>n. src' = drop n src)"
  using r try_decoders_rest [OF d growing, of "unknown_command errs" _ src r src']
  by (auto simp: decoding_def split: option.splits if_splits sum.splits) blast

sublocale growing_decoder "\<lambda>d. decoding d errs table"
proof
  fix d src f src'
  assume "bytes_ok d" "decoding d errs table src = Value (Inr (Some f), src')"
  from decoding_rest [OF this] show "length src' < length src" by auto
next
  fix d src src'
  assume "bytes_ok d" "decoding d errs table src = Value (Inr None, src')"
  from decoding_rest [OF this] show "src' = src" by simp
next
  fix d src e src'
  assume "bytes_ok d" "decoding d errs table src = Value (Inl e, src')"
  from decoding_rest [OF this] show "length src' \<le> length src" by auto
next
  fix d assume "memchr_ok d"
  then show "decoding d errs table [] = Value (Inr None, [])"
    by (simp add: decoding_eq BUFSIZE_LIMIT_def)
qed (rule decoding_grow)

end

subsection \<open>The two codecs\<close>

lemma growing_server_table: "growing_table server_table"
  unfolding server_table_def growing_table_Cons
  by (simp add: CR_def ping_server.command_decoder_axioms pong_server.command_decoder_axioms
      hmsg_dec.command_decoder_axioms msg_dec.command_decoder_axioms ok_dec.command_decoder_axioms
      err_dec.command_decoder_axioms info_dec.command_decoder_axioms)

lemma growing_client_table: "growing_table client_table"
  unfolding client_table_def growing_table_Cons
  by (simp add: CR_def ping_client.command_decoder_axioms pong_client.command_decoder_axioms
      hpub_dec.command_decoder_axioms publish_dec.command_decoder_axioms
      sub_dec.command_decoder_axioms unsub_dec.command_decoder_axioms
      connect_dec.command_decoder_axioms)

interpretation server: decoder_table server_table server_common_errors
  by unfold_locales (rule growing_server_table)

lemma server_decode_eq: "server_decode = (\<lambda>d. decoding d server_common_errors server_table)"
  by (simp add: server_decode_def fun_eq_iff)

interpretation server_dec: growing_decoder server_decode
  unfolding server_decode_eq by (rule server.growing_decoder_axioms)

interpretation client: decoder_table client_table client_common_errors
  by unfold_locales (rule growing_client_table)

lemma client_decode_eq: "client_decode = (\<lambda>d. decoding d client_common_errors client_table)"
  by (simp add: client_decode_def fun_eq_iff)

interpretation client_dec: growing_decoder client_decode
  unfolding client_decode_eq by (rule client.growing_decoder_axioms)

subsection \<open>Dispatch\<close>

text \<open>
  What one call does once a body decoder has been chosen, and the condition under which the
  order of the table does not matter: two prefixes differ at a position both have, up to
  ASCII case, and no earlier prefix is longer than a later command's shortest line.
\<close>

definition body_step ::
  "crates \<Rightarrow> (crates \<Rightarrow> buf \<Rightarrow> ('t, 'e) body_result) \<Rightarrow> buf \<Rightarrow> buf \<Rightarrow> ('t, 'e) decode_result" where
  "body_step d dec p body =
     run_bind (dec d body) (\<lambda>r. case r of
        Advance frame consume \<Rightarrow>
          (if consume \<le> length body then Value (Inr (Some frame), drop consume body) else Panic)
      | FatalError e \<Rightarrow> Value (Inl e, p @ body)
      | FrameTooShort _ \<Rightarrow> Value (Inr None, p @ body))"

definition clash :: "buf \<Rightarrow> buf \<Rightarrow> bool" where
  "clash p q \<longleftrightarrow> list_ex (\<lambda>(a, b). lower_val a \<noteq> lower_val b) (zip p q)"

fun clash_free :: "buf list \<Rightarrow> bool" where
  "clash_free [] \<longleftrightarrow> True"
| "clash_free (q # qs) \<longleftrightarrow>
     (\<forall>p \<in> set qs. clash p q \<and> length q \<le> length p + 2) \<and> clash_free qs"

lemma clash_not_eq:
  assumes "clash p q" "eq_ignore_ascii_case p' p"
  shows "\<not> eq_ignore_ascii_case (take (length q) (p' @ body)) q"
proof
  assume e: "eq_ignore_ascii_case (take (length q) (p' @ body)) q"
  obtain a b where ab: "(a, b) \<in> set (zip p q)" "lower_val a \<noteq> lower_val b"
    using assms(1) by (auto simp: clash_def list_ex_iff)
  then obtain i where i: "i < length p" "i < length q" "a = p ! i" "b = q ! i"
    by (auto simp: set_zip)
  have p: "map lower_val p' = map lower_val p" "length p' = length p"
    using assms(2) by (auto simp: eq_ignore_ascii_case_eval dest: map_eq_imp_length_eq)
  have "lower_val a = lower_val (p' ! i)" using p i by (metis nth_map)
  moreover have "map lower_val (take (length q) (p' @ body)) ! i = lower_val b"
    using e i by (simp add: eq_ignore_ascii_case_eval)
  moreover have "map lower_val (take (length q) (p' @ body)) ! i = lower_val (p' ! i)"
    using i p(2) by (simp add: nth_append)
  ultimately show False using ab(2) by simp
qed

lemma try_decoders_dispatch:
  assumes "bytes_ok d" "eq_ignore_ascii_case p' p" "length p + 2 \<le> length (p' @ body)"
  shows "clash_free (map fst ds) \<Longrightarrow> (p, dec) \<in> set ds \<Longrightarrow>
    try_decoders d u k (p' @ body) ds = body_step d dec p' body"
proof (induction ds)
  case (Cons e ds)
  obtain q dq where e: "e = (q, dq)" by force
  have lp: "length p' = length p"
    using assms(2) by (auto simp: eq_ignore_ascii_case_def dest: map_eq_imp_length_eq)
  show ?case
  proof (cases "(p, dec) = (q, dq)")
    case True
    then show ?thesis
      using assms lp e unfolding body_step_def
      by (cases "dec d body") (auto split: command_decoder_result.splits)
  next
    case False
    with Cons.prems e have m: "(p, dec) \<in> set ds" by auto
    then have "clash p q" "length q \<le> length p + 2"
      using Cons.prems(1) e by (force)+
    then show ?thesis
      using Cons m e assms(3) clash_not_eq [OF _ assms(2), of q body] by simp
  qed
qed simp

text \<open>The first line is found when it ends inside the clamped buffer.\<close>

definition line_in_reach :: "buf \<Rightarrow> bool" where
  "line_in_reach src \<longleftrightarrow> break_crlf (take BUFSIZE_LIMIT src) \<noteq> None"

lemma line_in_reachI:
  assumes "no_crlf a" "length a + 2 \<le> BUFSIZE_LIMIT"
  shows "line_in_reach (a @ CRLF @ b)"
proof -
  have "take BUFSIZE_LIMIT (a @ CRLF @ b) = a @ CRLF @ take (BUFSIZE_LIMIT - length a - 2) b"
    using assms(2) by simp
  then show ?thesis
    unfolding line_in_reach_def by (simp only: break_crlf_append_CRLF [OF assms(1)]) simp
qed

lemma line_in_reach_first: "line_in_reach src \<Longrightarrow> \<exists>a b. src = a @ CRLF @ b"
proof -
  assume "line_in_reach src"
  then obtain a b where "break_crlf (take BUFSIZE_LIMIT src) = Some (a, b)"
    by (auto simp: line_in_reach_def)
  from break_crlf_take [OF this] show ?thesis unfolding break_crlf_Some by blast
qed

lemma line_in_reach_length:
  assumes "line_in_reach (p @ body)" "CR \<notin> set p"
  shows "length p + 2 \<le> length (p @ body)"
proof -
  obtain a b where ab: "p @ body = a @ CRLF @ b" using line_in_reach_first [OF assms(1)] by blast
  have "\<not> length a < length p"
  proof
    assume l: "length a < length p"
    have "(p @ body) ! length a = CR" unfolding ab by (simp add: CRLF_def)
    with l have "p ! length a = CR" by (simp add: nth_append)
    with l assms(2) show False using nth_mem [OF l] by simp
  qed
  moreover have "length (p @ body) = length a + 2 + length b" unfolding ab by simp
  ultimately show ?thesis by linarith
qed

lemma prefix_no_CR: "eq_ignore_ascii_case p' p \<Longrightarrow> CR \<notin> set p \<Longrightarrow> CR \<notin> set p'"
proof -
  have low: "to_ascii_lowercase c = CR \<longleftrightarrow> c = CR" for c by (rule lowercase_low) simp
  have "CR \<in> set xs \<longleftrightarrow> CR \<in> set (map to_ascii_lowercase xs)" for xs
    unfolding set_map image_iff using low by metis
  then show "eq_ignore_ascii_case p' p \<Longrightarrow> CR \<notin> set p \<Longrightarrow> CR \<notin> set p'"
    by (metis eq_ignore_ascii_case_def)
qed

context decoder_table
begin

lemma decoding_dispatch:
  assumes d: "memchr_ok d" "bytes_ok d" and t: "clash_free (map fst table)" "(p, dec) \<in> set table"
    and p': "eq_ignore_ascii_case p' p" and l: "line_in_reach (p' @ body)"
  shows "decoding d errs table (p' @ body) = body_step d dec p' body"
proof -
  have "CR \<notin> set p" using growing t(2) by (auto simp: growing_table_def)
  then have len: "length p + 2 \<le> length (p' @ body)"
    using line_in_reach_length [OF l prefix_no_CR [OF p']] p'
    by (auto simp: eq_ignore_ascii_case_def dest: map_eq_imp_length_eq)
  obtain a b where "break_crlf (take BUFSIZE_LIMIT (p' @ body)) = Some (a, b)"
    using l by (auto simp: line_in_reach_def)
  then show ?thesis
    using try_decoders_dispatch [OF d(2) p' len t] by (simp add: decoding_eq [OF d(1)])
qed

text \<open>A line that begins with none of the prefixes, in a buffer long enough to see it.\<close>

lemma decoding_unknown:
  assumes d: "memchr_ok d" "bytes_ok d"
    and "break_crlf (take BUFSIZE_LIMIT src) = Some (a, b)"
    and "\<forall>(q, _) \<in> set table. length q \<le> length src \<and> \<not> eq_ignore_ascii_case (take (length q) src) q"
  shows "decoding d errs table src = Value (Inl (unknown_command errs), drop (length a + 1) src)"
proof -
  obtain c where c: "break_crlf src = Some (a, c)" using break_crlf_take [OF assms(3)] by blast
  have skip: "\<forall>(q, _) \<in> set ds. length q \<le> length src \<and> \<not> eq_ignore_ascii_case (take (length q) src) q \<Longrightarrow>
      try_decoders d u k src ds = run_bind (buf_advance d src (k + 1)) (\<lambda>s. Value (Inl u, s))"
    for ds :: "('a, 'b) table" and u k
    by (induction ds) auto
  show ?thesis
    using assms(3) d(2) length_break_crlf [OF c] by (simp add: decoding_eq [OF d(1)] skip [OF assms(4)])
qed

end

lemma clash_free_server: "clash_free (map fst server_table)"
  by (simp add: server_table_def clash_def lower_val_def byte_val_def Let_def)

lemma clash_free_client: "clash_free (map fst client_table)"
  by (simp add: client_table_def clash_def lower_val_def byte_val_def Let_def)

lemmas server_dispatch = server.decoding_dispatch [OF _ _ clash_free_server,
  folded server_decode_def]
lemmas client_dispatch = client.decoding_dispatch [OF _ _ clash_free_client,
  folded client_decode_def]

end
