(* ===== verification/Framed_Reader.thy ===== *)
theory Framed_Reader
  imports Decoder "HOL-Library.Sublist"
begin

text \<open>
  What a stream of bytes decodes to. \<open>frames\<close> are successive calls of a decoder that return
  frames. \<open>drain\<close> is the reader's inner loop, the calls until one of them does not return a
  frame, and \<open>framed_read\<close> is the reader: after every read it appends the bytes to its buffer
  and drains it, so that every call the real reader makes is made here too. It ends with the
  stream, with the first error of the decoder, or with its panic. None of the three is code of
  the repository; they are the order of calls in which the properties speak of the codecs.
\<close>

subsection \<open>Successive calls\<close>

inductive frames :: "(buf \<Rightarrow> ('t, 'e) decode_result) \<Rightarrow> buf \<Rightarrow> 't list \<Rightarrow> buf \<Rightarrow> bool"
  for dec where
  frames_Nil: "frames dec src [] src"
| frames_Cons: "dec src = Value (Inr (Some f), r) \<Longrightarrow> frames dec r fs rest \<Longrightarrow>
    frames dec src (f # fs) rest"

inductive_cases frames_ConsE: "frames dec src (f # fs) rest"
inductive_simps frames_Nil_iff [simp]: "frames dec src [] rest"

lemma frames_append:
  "frames dec src fs r \<Longrightarrow> frames dec r fs' rest \<Longrightarrow> frames dec src (fs @ fs') rest"
  by (induction rule: frames.induct) (auto intro: frames_Cons)

text \<open>Two runs of calls over the same bytes: one goes on where the other stopped.\<close>

lemma frames_linear:
  "frames dec src fs r \<Longrightarrow> frames dec src fs' r' \<Longrightarrow>
   (\<exists>gs. fs' = fs @ gs \<and> frames dec r gs r') \<or> (\<exists>gs. fs = fs' @ gs \<and> frames dec r' gs r)"
proof (induction arbitrary: fs' rule: frames.induct)
  case (frames_Cons src f r fs rest)
  show ?case
  proof (cases fs')
    case Nil
    with frames_Cons show ?thesis by (auto intro: frames.frames_Cons)
  next
    case (Cons g gs)
    with frames_Cons.prems frames_Cons.hyps(1) have "g = f" "frames dec r gs r'"
      by (auto elim: frames_ConsE)
    with Cons frames_Cons.IH [of gs] show ?thesis by auto
  qed
qed simp

subsection \<open>The reader\<close>

datatype 'e outcome = Waits buf | Fails 'e buf | Panics

partial_function (option) drain ::
  "(buf \<Rightarrow> ('t, 'e) decode_result) \<Rightarrow> buf \<Rightarrow> ('t list \<times> 'e outcome) option" where
  "drain dec src =
     (case dec src of
        Panic \<Rightarrow> Some ([], Panics)
      | Value (res, rest) \<Rightarrow>
          (case res of
             Inl e \<Rightarrow> Some ([], Fails e rest)
           | Inr None \<Rightarrow> Some ([], Waits rest)
           | Inr (Some f) \<Rightarrow> Option.bind (drain dec rest) (\<lambda>(fs, out). Some (f # fs, out))))"

fun framed_read ::
  "(buf \<Rightarrow> ('t, 'e) decode_result) \<Rightarrow> buf \<Rightarrow> buf list \<Rightarrow> ('t list \<times> 'e outcome) option" where
  "framed_read dec buffer [] = Some ([], Waits buffer)"
| "framed_read dec buffer (chunk # chunks) =
     Option.bind (drain dec (buffer @ chunk)) (\<lambda>(fs, out).
       case out of
         Waits rest \<Rightarrow> map_option (\<lambda>(fs', out'). (fs @ fs', out')) (framed_read dec rest chunks)
       | _ \<Rightarrow> Some (fs, out))"

text \<open>The call that ends a run of calls, and the bytes an outcome leaves.\<close>

fun stops :: "(buf \<Rightarrow> ('t, 'e) decode_result) \<Rightarrow> buf \<Rightarrow> 'e outcome \<Rightarrow> bool" where
  "stops dec src (Waits rest) \<longleftrightarrow> dec src = Value (Inr None, rest)"
| "stops dec src (Fails e rest) \<longleftrightarrow> dec src = Value (Inl e, rest)"
| "stops dec src Panics \<longleftrightarrow> dec src = Panic"

fun left_bytes :: "'e outcome \<Rightarrow> buf" where
  "left_bytes (Waits rest) = rest"
| "left_bytes (Fails e rest) = rest"
| "left_bytes Panics = []"

lemma drain_step:
  "dec src = Value (Inr (Some f), r) \<Longrightarrow> drain dec src = map_option (\<lambda>(fs, out). (f # fs, out)) (drain dec r)"
  by (subst drain.simps) (cases "drain dec r", auto)

lemma drain_stop: "stops dec src out \<Longrightarrow> drain dec src = Some ([], out)"
  by (subst drain.simps) (cases out, auto)

lemma drain_frames: "frames dec src fs r \<Longrightarrow> stops dec r out \<Longrightarrow> drain dec src = Some (fs, out)"
  by (induction rule: frames.induct) (simp_all add: drain_stop drain_step)

lemma drain_cases:
  obtains f r where "dec src = Value (Inr (Some f), r)" | out where "stops dec src out"
proof (cases "dec src")
  case (Value x)
  then obtain res rest where "dec src = Value (res, rest)" by (cases x) auto
  then show thesis
    using that(1) that(2) [of "Waits rest"] that(2) [of "Fails (projl res) rest"]
    by (cases res) (auto intro: that simp: not_None_eq elim!: option.exhaust)
next
  case Panic
  then show thesis using that(2) [of Panics] by simp
qed

lemma stops_no_frames: "stops dec src out \<Longrightarrow> frames dec src fs r \<Longrightarrow> fs = [] \<and> r = src"
  by (cases fs; cases out) (auto elim: frames_ConsE)

text \<open>
  Where a reader of \<open>stream\<close> stood when it ended: behind its frames, at a call that gave its
  outcome on the bytes it had; only a reader that still waits has seen the whole stream. And
  when two readers end alike: both waiting with the same bytes, or with the same error.
\<close>

definition ended :: "(buf \<Rightarrow> ('t, 'e) decode_result) \<Rightarrow> buf \<Rightarrow> 't list \<Rightarrow> 'e outcome \<Rightarrow> bool" where
  "ended dec stream fs out \<longleftrightarrow> (\<exists>s rest. frames dec stream fs (s @ rest) \<and> stops dec s out \<and>
     ((\<exists>r. out = Waits r) \<longrightarrow> rest = []))"

definition same_end :: "'e outcome \<Rightarrow> 'e outcome \<Rightarrow> bool" where
  "same_end out out' \<longleftrightarrow> (case out of
     Waits r \<Rightarrow> out' = Waits r
   | Fails e _ \<Rightarrow> (\<exists>r. out' = Fails e r)
   | Panics \<Rightarrow> out' = Panics)"

lemma same_end_trans: "same_end out x \<Longrightarrow> same_end out' x \<Longrightarrow> same_end out out'"
  by (cases out; cases out') (auto simp: same_end_def)

subsection \<open>Readers of a growing decoder\<close>

context growing_decoder
begin

lemma frames_grow:
  assumes "memchr_ok d" "bytes_ok d"
  shows "frames (dec d) src fs r \<Longrightarrow> frames (dec d) (src @ extra) fs (r @ extra)"
proof (induction rule: frames.induct)
  case (frames_Cons src f r fs rest)
  then show ?case using final_grow [OF assms frames_Cons(1)] by (auto intro: frames.frames_Cons)
qed simp

text \<open>A wire form that has arrived in part, where the decoder does not panic.\<close>

lemma cut_waits:
  assumes d: "memchr_ok d" "bytes_ok d" and w: "dec d w = Value (Inr (Some c), [])" "k < length w"
    and p: "dec d (take k w) \<noteq> Panic"
  shows "dec d (take k w) = Value (Inr None, take k w)"
proof -
  obtain r s where r: "dec d (take k w) = Value (r, s)" using p by (cases "dec d (take k w)") auto
  have "r = Inr None"
  proof (rule ccontr)
    assume "r \<noteq> Inr None"
    from final_grow [OF d r this, of "drop k w"] w show False by simp
  qed
  with r wait_keeps [OF d(2), of "take k w" s] show ?thesis by simp
qed

text \<open>Draining a buffer ends, after at most one frame per byte.\<close>

lemma drain_ends:
  assumes "bytes_ok d"
  obtains fs r out where "drain (dec d) src = Some (fs, out)" "frames (dec d) src fs r" "stops (dec d) r out"
    "length fs + length r \<le> length src"
proof -
  have "\<exists>fs r out. frames (dec d) src fs r \<and> stops (dec d) r out \<and> length fs + length r \<le> length src"
  proof (induction src rule: length_induct)
    case (1 src)
    show ?case
    proof (cases "dec d" src rule: drain_cases)
      case (1 f s)
      from frame_consumes [OF assms 1] \<open>\<forall>ys. length ys < length src \<longrightarrow> _\<close> obtain fs r out where
        "frames (dec d) s fs r" "stops (dec d) r out" "length fs + length r \<le> length s" by blast
      with 1 frame_consumes [OF assms 1] show ?thesis
        by (intro exI [of _ "f # fs"] exI [of _ r] exI [of _ out]) (auto intro: frames_Cons)
    next
      case (2 out)
      then show ?thesis by (intro exI [of _ "[]"] exI [of _ src] exI [of _ out]) simp
    qed
  qed
  with that drain_frames show thesis by blast
qed

lemma framed_read_ended:
  assumes d: "memchr_ok d" "bytes_ok d"
  shows "stops (dec d) buffer (Waits buffer) \<Longrightarrow>
    \<exists>fs out. framed_read (dec d) buffer chunks = Some (fs, out) \<and> ended (dec d) (buffer @ concat chunks) fs out \<and>
      length fs + length (left_bytes out) \<le> length (buffer @ concat chunks)"
proof (induction chunks arbitrary: buffer)
  case Nil
  then show ?case by (auto simp: ended_def intro!: exI [of _ buffer])
next
  case (Cons chunk chunks)
  obtain fs r out where f: "drain (dec d) (buffer @ chunk) = Some (fs, out)"
    "frames (dec d) (buffer @ chunk) fs r" "stops (dec d) r out" "length fs + length r \<le> length (buffer @ chunk)"
    by (rule drain_ends [OF d(2)])
  note grow = frames_grow [OF d f(2), of "concat chunks", simplified]
  show ?case
  proof (cases out)
    case (Waits b)
    with f(3) have b: "b = r" using wait_keeps [OF d(2)] by auto
    from Cons.IH [of r] f(3) Waits b obtain fs' out' where
      i: "framed_read (dec d) r chunks = Some (fs', out')" "ended (dec d) (r @ concat chunks) fs' out'"
        "length fs' + length (left_bytes out') \<le> length (r @ concat chunks)" by auto
    have "ended (dec d) (buffer @ concat (chunk # chunks)) (fs @ fs') out'"
      using i(2) frames_append [OF grow] unfolding ended_def by auto
    with f i Waits b show ?thesis by auto
  next
    case (Fails e b)
    have "length b \<le> length r" using f(3) Fails error_shrinks [OF d(2)] by auto
    moreover have "ended (dec d) (buffer @ concat (chunk # chunks)) fs out"
      using grow f(3) Fails by (auto simp: ended_def)
    ultimately show ?thesis using f Fails by auto
  next
    case Panics
    have "ended (dec d) (buffer @ concat (chunk # chunks)) fs out"
      using grow f(3) Panics by (auto simp: ended_def)
    with f Panics show ?thesis by auto
  qed
qed

text \<open>From the first byte, and for a run whose result is known.\<close>

lemma framed_read_total:
  assumes "memchr_ok d" "bytes_ok d"
  shows "\<exists>fs out. framed_read (dec d) [] chunks = Some (fs, out) \<and> ended (dec d) (concat chunks) fs out \<and>
    length fs + length (left_bytes out) \<le> length (concat chunks)"
  using framed_read_ended [OF assms, of "[]" chunks] empty_waits [OF assms(1)] by simp

lemma framed_read_start:
  assumes "memchr_ok d" "bytes_ok d" "framed_read (dec d) [] chunks = Some (fs, out)"
  shows "ended (dec d) (concat chunks) fs out"
  using framed_read_total [OF assms(1,2), of chunks] assms(3) by auto

text \<open>
  Two readers of the same bytes, cut differently: where neither panics they have the same frames
  and end the same way, and a reader that panics had a first part of the frames.
\<close>

lemma ended_whole:
  assumes d: "memchr_ok d" "bytes_ok d" and e: "ended (dec d) stream fs out" "out \<noteq> Panics"
  shows "\<exists>r out'. frames (dec d) stream fs r \<and> stops (dec d) r out' \<and> same_end out out'"
proof -
  obtain s rest where s: "frames (dec d) stream fs (s @ rest)" "stops (dec d) s out"
    "(\<exists>r. out = Waits r) \<longrightarrow> rest = []"
    using e(1) by (auto simp: ended_def)
  show ?thesis
  proof (cases out)
    case (Waits r)
    with s show ?thesis by (intro exI [of _ s] exI [of _ out]) (simp add: same_end_def)
  next
    case (Fails x r)
    with s(2) final_grow [OF d, of s "Inl x" r rest] have "stops (dec d) (s @ rest) (Fails x (r @ rest))"
      by simp
    with s(1) Fails show ?thesis
      by (intro exI [of _ "s @ rest"] exI [of _ "Fails x (r @ rest)"]) (simp add: same_end_def)
  qed (use e(2) in simp)
qed

lemma ended_agree:
  assumes d: "memchr_ok d" "bytes_ok d"
    and e: "ended (dec d) stream fs out" "out \<noteq> Panics" and e': "ended (dec d) stream fs' out'"
  shows "prefix fs' fs \<and> (out' \<noteq> Panics \<longrightarrow> fs = fs' \<and> same_end out out')"
proof -
  obtain r x where r: "frames (dec d) stream fs r" "stops (dec d) r x" "same_end out x"
    using ended_whole [OF d e] by blast
  obtain r' where r': "frames (dec d) stream fs' r'" using e' by (auto simp: ended_def)
  then have "prefix fs' fs"
    using frames_linear [OF r(1) r'] stops_no_frames [OF r(2)] by (fastforce simp: prefix_def)
  moreover have "fs = fs' \<and> same_end out out'" if "out' \<noteq> Panics"
  proof -
    obtain r' x' where r': "frames (dec d) stream fs' r'" "stops (dec d) r' x'" "same_end out' x'"
      using ended_whole [OF d e' \<open>out' \<noteq> Panics\<close>] by blast
    have "Some (fs, x) = Some (fs', x')"
      using drain_frames [OF r(1,2)] drain_frames [OF r'(1,2)] by simp
    with r(3) r'(3) show ?thesis by (auto intro: same_end_trans)
  qed
  ultimately show ?thesis by blast
qed

end

subsection \<open>Where the cuts of a stream fall\<close>

text \<open>
  For a stream of wire forms and a number of its bytes: the items that lie in them whole, the
  bytes of the next one, and whether that one is cut where the decoder dies. \<open>read_ends\<close> are the
  numbers of bytes the reader has after each of its reads.
\<close>

fun completed :: "('t \<Rightarrow> buf) \<Rightarrow> 't list \<Rightarrow> nat \<Rightarrow> 't list" where
  "completed enc [] n = []"
| "completed enc (c # cs) n =
     (if n < length (enc c) then [] else c # completed enc cs (n - length (enc c)))"

fun cut_bytes :: "('t \<Rightarrow> buf) \<Rightarrow> 't list \<Rightarrow> nat \<Rightarrow> buf" where
  "cut_bytes enc [] n = []"
| "cut_bytes enc (c # cs) n =
     (if n < length (enc c) then take n (enc c) else cut_bytes enc cs (n - length (enc c)))"

fun fatal_cut :: "('t \<Rightarrow> nat \<Rightarrow> bool) \<Rightarrow> ('t \<Rightarrow> buf) \<Rightarrow> 't list \<Rightarrow> nat \<Rightarrow> bool" where
  "fatal_cut fatal enc [] n \<longleftrightarrow> False"
| "fatal_cut fatal enc (c # cs) n \<longleftrightarrow>
     (if n < length (enc c) then fatal c n else fatal_cut fatal enc cs (n - length (enc c)))"

fun read_ends :: "nat \<Rightarrow> buf list \<Rightarrow> nat list" where
  "read_ends n [] = []"
| "read_ends n (chunk # chunks) = (n + length chunk) # read_ends (n + length chunk) chunks"

lemma completed_all: "length (concat (map enc cs)) \<le> n \<Longrightarrow> completed enc cs n = cs"
  by (induction cs arbitrary: n) auto

lemma cut_bytes_all: "length (concat (map enc cs)) \<le> n \<Longrightarrow> cut_bytes enc cs n = []"
  by (induction cs arbitrary: n) auto

lemma cut_bytes_0: "\<forall>c \<in> set cs. enc c \<noteq> [] \<Longrightarrow> cut_bytes enc cs 0 = [] \<and> completed enc cs 0 = []"
  by (cases cs) auto

lemma completed_mono: "m \<le> n \<Longrightarrow> prefix (completed enc cs m) (completed enc cs n)"
proof (induction cs arbitrary: m n)
  case (Cons c cs)
  then show ?case using Cons.IH [of "m - length (enc c)" "n - length (enc c)"] by auto
qed simp

lemma completed_prefix: "prefix (completed enc cs n) cs"
  by (induction cs arbitrary: n) auto

lemma drop_prefixes: "prefix a b \<Longrightarrow> prefix b c \<Longrightarrow> drop (length a) b @ drop (length b) c = drop (length a) c"
  by (auto simp: prefix_def)

lemma read_ends_ge: "m \<in> set (read_ends n chunks) \<Longrightarrow> n \<le> m"
  by (induction chunks arbitrary: n) fastforce+

lemma fatal_cut_none: "\<forall>c \<in> set cs. \<forall>k. \<not> fatal c k \<Longrightarrow> \<not> fatal_cut fatal enc cs n"
  by (induction cs arbitrary: n) auto

text \<open>A fatal cut lies in the item behind the completed ones.\<close>

lemma fatal_cut_item:
  "fatal_cut fatal enc cs n \<Longrightarrow> \<exists>c cs2 k. cs = completed enc cs n @ c # cs2 \<and>
    n = length (concat (map enc (completed enc cs n))) + k \<and> k < length (enc c) \<and> fatal c k"
proof (induction cs arbitrary: n)
  case (Cons c cs)
  show ?case
  proof (cases "n < length (enc c)")
    case True
    with Cons.prems show ?thesis by auto
  next
    case False
    with Cons.prems obtain c' cs2 k where
      "cs = completed enc cs (n - length (enc c)) @ c' # cs2"
      "n - length (enc c) = length (concat (map enc (completed enc cs (n - length (enc c))))) + k"
      "k < length (enc c')" "fatal c' k"
      using Cons.IH [of "n - length (enc c)"] by auto
    with False show ?thesis by (intro exI [of _ c'] exI [of _ cs2] exI [of _ k]) auto
  qed
qed simp

text \<open>
  What the reader of a cut stream of wire forms has: the first read that ends at a fatal cut ends
  it, and without one it has all the items.
\<close>

definition read_result ::
  "('t \<Rightarrow> nat \<Rightarrow> bool) \<Rightarrow> ('t \<Rightarrow> buf) \<Rightarrow> 't list \<Rightarrow> buf list \<Rightarrow> 't list \<times> 'e outcome" where
  "read_result fatal enc cs chunks =
     (case find (fatal_cut fatal enc cs) (read_ends 0 chunks) of
        None \<Rightarrow> (cs, Waits [])
      | Some n \<Rightarrow> (completed enc cs n, Panics))"

text \<open>A reader that dies had read into the item behind its frames, to a fatal place.\<close>

lemma read_result_panics:
  assumes "read_result fatal enc cs chunks = (fs, Panics)"
  shows "\<exists>c cs2 k. cs = fs @ c # cs2 \<and> k < length (enc c) \<and> fatal c k \<and>
    length (concat (map enc fs)) + k \<in> set (read_ends 0 chunks)"
proof -
  obtain n where n: "find (fatal_cut fatal enc cs) (read_ends 0 chunks) = Some n" "fs = completed enc cs n"
    using assms by (auto simp: read_result_def split: option.splits)
  then have "fatal_cut fatal enc cs n" "n \<in> set (read_ends 0 chunks)" by (auto simp: find_Some_iff)
  with fatal_cut_item [OF this(1)] n(2) show ?thesis by metis
qed

subsection \<open>A decoder and an encoder\<close>

text \<open>
  A decoder with an encoder it inverts on the well-formed items, one at a time, and what it does
  on a wire form that has not arrived whole: it panics on the prefixes that are fatal for the item,
  and waits on all others.
\<close>

locale frame_codec = growing_decoder dec
  for dec :: "crates \<Rightarrow> buf \<Rightarrow> ('t, 'e) decode_result" +
  fixes enc :: "crates \<Rightarrow> 't \<Rightarrow> buf" and wf :: "crates \<Rightarrow> 't \<Rightarrow> bool"
    and fatal :: "'t \<Rightarrow> nat \<Rightarrow> bool"
  assumes round_trip:
    "memchr_ok d \<Longrightarrow> bytes_ok d \<Longrightarrow> wf d c \<Longrightarrow> dec d (enc d c @ rest) = Value (Inr (Some c), rest)"
  and cut:
    "memchr_ok d \<Longrightarrow> bytes_ok d \<Longrightarrow> wf d c \<Longrightarrow> k < length (enc d c) \<Longrightarrow>
     dec d (take k (enc d c)) = (if fatal c k then Panic else Value (Inr None, take k (enc d c)))"
begin

lemma frames_stream:
  assumes "memchr_ok d" "bytes_ok d"
  shows "\<forall>c \<in> set cs. wf d c \<Longrightarrow> frames (dec d) (concat (map (enc d) cs) @ rest) cs rest"
proof (induction cs)
  case (Cons c cs)
  then show ?case using round_trip [OF assms, of c] by (auto intro: frames_Cons)
qed simp

text \<open>The wire form is a prefix code on well-formed items, and never empty.\<close>

lemma enc_inj:
  assumes "memchr_ok d" "bytes_ok d" "wf d a" "wf d b" "enc d a @ r = enc d b @ s"
  shows "a = b \<and> r = s"
proof -
  have "dec d (enc d b @ s) = Value (Inr (Some a), r)"
    using round_trip [OF assms(1-3), of r] unfolding assms(5) .
  then show ?thesis unfolding round_trip [OF assms(1,2,4)] by simp
qed

lemma enc_not_Nil:
  assumes "memchr_ok d" "bytes_ok d" "wf d c"
  shows "enc d c \<noteq> []"
  using frame_consumes [OF assms(2) round_trip [OF assms, of "[]"]] by auto

lemma drain_cut:
  assumes d: "memchr_ok d" "bytes_ok d"
  shows "\<forall>c \<in> set cs. wf d c \<Longrightarrow> drain (dec d) (take n (concat (map (enc d) cs))) =
    Some (completed (enc d) cs n, if fatal_cut fatal (enc d) cs n then Panics else Waits (cut_bytes (enc d) cs n))"
proof (induction cs arbitrary: n)
  case Nil
  have "stops (dec d) [] (Waits [])" using empty_waits [OF d(1)] by simp
  from drain_stop [OF this] show ?case by simp
next
  case (Cons c cs)
  then have wf: "wf d c" by simp
  show ?case
  proof (cases "n < length (enc d c)")
    case True
    have "stops (dec d) (take n (enc d c)) (if fatal c n then Panics else Waits (take n (enc d c)))"
      using cut [OF d wf True] by simp
    from drain_stop [OF this] True show ?thesis by simp
  next
    case False
    have "dec d (take n (concat (map (enc d) (c # cs)))) =
        Value (Inr (Some c), take (n - length (enc d c)) (concat (map (enc d) cs)))"
      using False round_trip [OF d wf] by simp
    from drain_step [of "dec d", OF this] Cons False show ?thesis by simp
  qed
qed

text \<open>One read, when the bytes before it ended at a cut that is not fatal.\<close>

lemma drain_next:
  assumes d: "memchr_ok d" "bytes_ok d"
  shows "\<forall>c \<in> set cs. wf d c \<Longrightarrow>
    drain (dec d) (cut_bytes (enc d) cs n @ take l (drop n (concat (map (enc d) cs)))) =
    Some (drop (length (completed (enc d) cs n)) (completed (enc d) cs (n + l)),
      if fatal_cut fatal (enc d) cs (n + l) then Panics else Waits (cut_bytes (enc d) cs (n + l)))"
proof (induction cs arbitrary: n)
  case Nil
  then show ?case using drain_cut [OF d, of "[]" 0] by simp
next
  case (Cons c cs)
  show ?case
  proof (cases "n < length (enc d c)")
    case True
    have "cut_bytes (enc d) (c # cs) n @ take l (drop n (concat (map (enc d) (c # cs)))) =
        take (n + l) (concat (map (enc d) (c # cs)))"
      unfolding take_add using True by simp
    moreover have "completed (enc d) (c # cs) n = []" using True by simp
    ultimately show ?thesis using drain_cut [OF d Cons.prems, of "n + l"] by (simp del: completed.simps cut_bytes.simps fatal_cut.simps)
  next
    case False
    then obtain m where "n = length (enc d c) + m" using le_Suc_ex not_less by blast
    with Cons.IH [of m] Cons.prems show ?thesis by (simp add: add.assoc)
  qed
qed

text \<open>Reading on from byte \<open>n\<close>.\<close>

lemma framed_read_from:
  assumes d: "memchr_ok d" "bytes_ok d" and wf: "\<forall>c \<in> set cs. wf d c"
  shows "concat chunks = drop n (concat (map (enc d) cs)) \<Longrightarrow> n \<le> length (concat (map (enc d) cs)) \<Longrightarrow>
    framed_read (dec d) (cut_bytes (enc d) cs n) chunks = Some
      (case find (fatal_cut fatal (enc d) cs) (read_ends n chunks) of
         None \<Rightarrow> (drop (length (completed (enc d) cs n)) cs, Waits [])
       | Some m \<Rightarrow> (drop (length (completed (enc d) cs n)) (completed (enc d) cs m), Panics))"
proof (induction chunks arbitrary: n)
  case Nil
  then show ?case by (simp add: completed_all cut_bytes_all)
next
  case (Cons chunk chunks)
  let ?w = "concat (map (enc d) cs)" and ?n = "n + length chunk"
  have c: "chunk = take (length chunk) (drop n ?w)" "concat chunks = drop ?n ?w"
    using Cons.prems(1) by (metis append_eq_conv_conj concat.simps(2))
      (metis Cons.prems(1) add.commute append_eq_conv_conj concat.simps(2) drop_drop)
  have "length chunk + length (concat chunks) = length ?w - n"
    using arg_cong [OF Cons.prems(1), of length] by simp
  then have n: "?n \<le> length ?w" using Cons.prems(2) by linarith
  note step = drain_next [OF d wf, of n "length chunk", folded c(1)]
  show ?case
  proof (cases "fatal_cut fatal (enc d) cs ?n")
    case True
    with step show ?thesis by simp
  next
    case False
    have later: "drop (length (completed (enc d) cs n)) (completed (enc d) cs ?n) @
        drop (length (completed (enc d) cs ?n)) xs = drop (length (completed (enc d) cs n)) xs"
      if "prefix (completed (enc d) cs ?n) xs" for xs
      by (rule drop_prefixes [OF completed_mono that]) simp
    have "prefix (completed (enc d) cs ?n) (completed (enc d) cs m)"
      if "find (fatal_cut fatal (enc d) cs) (read_ends ?n chunks) = Some m" for m
    proof (rule completed_mono)
      have "m \<in> set (read_ends ?n chunks)" using that by (auto simp: find_Some_iff)
      then show "?n \<le> m" by (rule read_ends_ge)
    qed
    with step False Cons.IH [OF c(2) n] later [OF this] later [OF completed_prefix] show ?thesis
      by (simp split: option.split)
  qed
qed

text \<open>The whole stream, from the first byte.\<close>

lemma framed_read_stream:
  assumes "memchr_ok d" "bytes_ok d" "\<forall>c \<in> set cs. wf d c" "concat chunks = concat (map (enc d) cs)"
  shows "framed_read (dec d) [] chunks = Some (read_result fatal (enc d) cs chunks)"
proof -
  have "cut_bytes (enc d) cs 0 = [] \<and> completed (enc d) cs 0 = []"
    using enc_not_Nil [OF assms(1,2)] assms(3) by (intro cut_bytes_0) blast
  then show ?thesis
    using framed_read_from [OF assms(1-3), of chunks 0] assms(4)
    by (simp add: read_result_def split: option.splits)
qed

lemma framed_read_panics:
  assumes "memchr_ok d" "bytes_ok d" "\<forall>c \<in> set cs. wf d c" "concat chunks = concat (map (enc d) cs)"
    and "framed_read (dec d) [] chunks = Some (fs, Panics)"
  shows "\<exists>c cs2 k. cs = fs @ c # cs2 \<and> k < length (enc d c) \<and> fatal c k \<and>
    length (concat (map (enc d) fs)) + k \<in> set (read_ends 0 chunks)"
proof (rule read_result_panics)
  show "read_result fatal (enc d) cs chunks = (fs, Panics :: 'e outcome)"
    using framed_read_stream [OF assms(1-4)] assms(5) by simp
qed

end

lemma read_result_safe:
  "\<forall>c \<in> set cs. \<forall>k. \<not> fatal c k \<Longrightarrow> read_result fatal enc cs chunks = (cs, Waits [])"
  unfolding read_result_def
  by (auto simp: fatal_cut_none find_Some_iff split: option.split)

end
