(* ===== verification/Framing_Laws.thy ===== *)
theory Framing_Laws
  imports Framed_Reader
begin

text \<open>
  Facts about the framing loop that hold for every table: which decoder a frame or a panic came
  from, and the lines the loop cannot get past. The server's and the client's codec use them.
\<close>

subsection \<open>Which decoder made a frame\<close>

text \<open>A frame returned by the loop was returned by one of the table's decoders.\<close>

lemma try_decoders_frame:
  "bytes_ok d \<Longrightarrow> try_decoders d u k src ds = Value (Inr (Some f), r) \<Longrightarrow>
   \<exists>p dec n. (p, dec) \<in> set ds \<and> length p \<le> length src \<and>
     eq_ignore_ascii_case (take (length p) src) p \<and>
     dec d (drop (length p) src) = Value (Advance f n) \<and> n + length p \<le> length src \<and>
     r = drop (n + length p) src"
proof (induction ds)
  case (Cons e ds)
  obtain p dec where e: "e = (p, dec)" by force
  show ?case
  proof (cases "eq_ignore_ascii_case (take (length p) src) p")
    case False
    with Cons e have "try_decoders d u k src ds = Value (Inr (Some f), r)" by (auto split: if_splits)
    from Cons.IH [OF Cons.prems(1) this] show ?thesis by auto
  next
    case True
    with Cons.prems e show ?thesis
      by (cases "dec d (drop (length p) src)")
        (force split: if_splits command_decoder_result.splits)+
  qed
qed (auto split: if_splits)

lemma decoding_frame:
  assumes "bytes_ok d" "decoding d errs table src = Value (Inr (Some f), r)"
  obtains p dec n where "(p, dec) \<in> set table" "length p \<le> length src"
    "eq_ignore_ascii_case (take (length p) src) p"
    "dec d (drop (length p) src) = Value (Advance f n)" "n + length p \<le> length src"
    "r = drop (n + length p) src"
proof -
  obtain k where "try_decoders d (unknown_command errs) k src table = Value (Inr (Some f), r)"
    using assms(2) by (auto simp: decoding_def split: option.splits if_splits)
  from try_decoders_frame [OF assms(1) this] that show thesis by blast
qed

lemmas server_frameE = decoding_frame [of _ server_common_errors server_table, folded server_decode_def]
lemmas client_frameE = decoding_frame [of _ client_common_errors client_table, folded client_decode_def]

text \<open>The entry of the table that a given kind of frame comes from.\<close>

lemma server_table_cases:
  "(p, dec) \<in> set server_table \<Longrightarrow>
    (p, dec) = (''PING'', ping_server_decode) \<or>
    (p, dec) = (''PONG'', pong_server_decode) \<or>
    (p, dec) = (''HMSG '', hmsg_decode) \<or>
    (p, dec) = (''MSG '', msg_decode) \<or>
    (p, dec) = (''+OK'', ok_decode) \<or>
    (p, dec) = (''-ERR '', err_decode) \<or>
    (p, dec) = (''INFO '', info_decode)"
  unfolding server_table_def list.set insert_iff empty_iff by (simp only: simp_thms)

lemma client_table_cases:
  "(p, dec) \<in> set client_table \<Longrightarrow>
    (p, dec) = (''PING'', ping_client_decode) \<or>
    (p, dec) = (''PONG'', pong_client_decode) \<or>
    (p, dec) = (''HPUB '', hpub_decode) \<or>
    (p, dec) = (''PUB '', publish_decode) \<or>
    (p, dec) = (''SUB '', sub_decode) \<or>
    (p, dec) = (''UNSUB '', unsub_decode) \<or>
    (p, dec) = (''CONNECT '', connect_decode)"
  unfolding client_table_def list.set insert_iff empty_iff by (simp only: simp_thms)

subsection \<open>Lines the loop cannot get past\<close>

text \<open>
  Three ways a stream stops: a command without arguments whose line is not empty is taken for a
  frame that is not complete yet; a fatal error leaves the buffer as it was; and an unknown
  command is skipped up to its CR only.
\<close>

lemma empty_body_stuck:
  assumes "memchr_ok d" "no_crlf l" "l \<noteq> []"
  shows "empty_body f d (l @ CRLF @ rest) = Value (FrameTooShort None)"
  using slice_spliterator_first [OF assms(1,2), of rest] assms(3) by (auto simp: empty_body_def)

context decoder_table
begin

lemma decoding_stuck:
  assumes d: "memchr_ok d" "bytes_ok d" and t: "clash_free (map fst table)" "(p, dec) \<in> set table"
    and p': "eq_ignore_ascii_case p' p" and l: "line_in_reach (p' @ body)"
    and w: "dec d body = Value (FrameTooShort k)"
  shows "decoding d errs table (p' @ body) = Value (Inr None, p' @ body)"
  using decoding_dispatch [OF d t p' l] w by (simp add: body_step_def)

lemma decoding_fatal_keeps:
  assumes d: "memchr_ok d" "bytes_ok d"
    and r: "decoding d errs table src = Value (Inl e, src')" and e: "e \<noteq> unknown_command errs"
  shows "src' = src \<and> decoding d errs table (src @ extra) = Value (Inl e, src @ extra)"
proof -
  from decoding_rest [OF d(2) r] e have "src' = src" by simp
  with decoding_grow [OF d r, of extra] show ?thesis by simp
qed

text \<open>A buffer that begins with the line feed left over from a skipped line.\<close>

lemma decoding_after_LF:
  assumes d: "memchr_ok d" "bytes_ok d"
    and t: "\<forall>(p, _) \<in> set table. p \<noteq> [] \<and> \<not> eq_ignore_ascii_case [LF] (take 1 p)"
  shows "\<exists>r s'. decoding d errs table (LF # s) = Value (r, LF # s') \<and>
    r \<in> {Inr None, Inl (exceeds_short_length errs), Inl (unknown_command errs)}"
proof (cases "break_crlf (take BUFSIZE_LIMIT (LF # s))")
  case None
  then show ?thesis by (auto simp: decoding_eq [OF d(1)])
next
  case (Some ab)
  obtain a b where ab: "ab = (a, b)" by force
  obtain c where "break_crlf (LF # s) = Some (a, c)" using break_crlf_take Some ab by blast
  then have split: "LF # s = a @ CRLF @ c" by (simp add: break_crlf_Some)
  then obtain a' where a: "a = LF # a'" by (cases a) (auto simp: CRLF_def)
  have skip: "try_decoders d u (length a) (LF # s) ds = Value (Inr None, LF # s) \<or>
      try_decoders d u (length a) (LF # s) ds = Value (Inl u, LF # c)"
    if "\<forall>(p, _) \<in> set ds. p \<noteq> [] \<and> \<not> eq_ignore_ascii_case [LF] (take 1 p)" for u ds
    using that
  proof (induction ds)
    case Nil
    have "drop (length a + 1) (LF # s) = LF # c" unfolding split by (simp add: CRLF_def)
    moreover have "length a + 1 \<le> length (LF # s)" unfolding split by simp
    ultimately show ?case using d(2) by (simp del: drop_Suc_Cons)
  next
    case (Cons e ds)
    obtain p dec where e: "e = (p, dec)" by force
    have "\<not> eq_ignore_ascii_case (take (length p) (LF # s)) p"
      using Cons.prems e by (cases p) (auto simp: eq_ignore_ascii_case_def)
    with Cons e show ?case by auto
  qed
  show ?thesis
    using skip [OF t, of "unknown_command errs"] Some ab by (auto simp: decoding_eq [OF d(1)])
qed

text \<open>No line break within the soft limit.\<close>

lemma decoding_no_line:
  assumes "memchr_ok d" "no_crlf (take BUFSIZE_LIMIT src)"
  shows "decoding d errs table src =
    Value (if length src < BUFSIZE_LIMIT then Inr None else Inl (exceeds_short_length errs), src)"
  using assms(2) by (simp add: decoding_eq [OF assms(1)] no_crlf_def)

end

text \<open>\<open>UnknownCommand\<close> comes from the end of the table only, with the line skipped up to its CR.\<close>

lemma try_decoders_unknown:
  assumes "bytes_ok d" "drop (k + 1) src = LF # s"
  shows "\<forall>(p, dec) \<in> set ds. \<forall>b. dec d b \<noteq> Value (FatalError u) \<Longrightarrow>
    try_decoders d u k src ds = Value (Inl u, rest) \<Longrightarrow> rest = LF # s"
proof (induction ds)
  case Nil
  then show ?case using assms by (auto split: if_splits)
next
  case (Cons e ds)
  obtain p dec where e: "e = (p, dec)" by force
  show ?case
  proof (cases "eq_ignore_ascii_case (take (length p) src) p")
    case False
    then show ?thesis using Cons e by (auto split: if_splits)
  next
    case True
    then show ?thesis using Cons.prems e assms(1)
      by (cases "dec d (drop (length p) src)")
        (auto split: if_splits command_decoder_result.splits)
  qed
qed

context decoder_table
begin

lemma decoding_unknown_LF:
  assumes d: "memchr_ok d" "bytes_ok d"
    and t: "\<forall>(p, dec) \<in> set table. \<forall>b. dec d b \<noteq> Value (FatalError (unknown_command errs))"
    and r: "decoding d errs table src = Value (Inl (unknown_command errs), rest)"
    and n: "exceeds_short_length errs \<noteq> unknown_command errs"
  shows "\<exists>s. rest = LF # s"
proof -
  obtain a b where ab: "break_crlf (take BUFSIZE_LIMIT src) = Some (a, b)"
    "try_decoders d (unknown_command errs) (length a) src table = Value (Inl (unknown_command errs), rest)"
    using r n by (auto simp: decoding_eq [OF d(1)] split: option.splits if_splits)
  obtain c where "src = a @ CRLF @ c" using break_crlf_take [OF ab(1)] by (auto simp: break_crlf_Some)
  then have "drop (length a + 1) src = LF # c" by (simp add: CRLF_def)
  from try_decoders_unknown [OF d(2) this t ab(2)] show ?thesis by blast
qed

end

text \<open>A call that panics has chosen a decoder that is not a \<open>safe_decoder\<close>.\<close>

lemma try_decoders_panic:
  assumes "memchr_ok d" "bytes_ok d" "k + 1 \<le> length src"
  shows "try_decoders d u k src ds = Panic \<Longrightarrow>
    \<exists>p dec. (p, dec) \<in> set ds \<and> eq_ignore_ascii_case (take (length p) src) p \<and> \<not> safe_decoder dec"
proof (induction ds)
  case Nil
  then show ?case using assms by simp
next
  case (Cons e ds)
  obtain p dec where e: "e = (p, dec)" by force
  show ?case
  proof (cases "eq_ignore_ascii_case (take (length p) src) p")
    case False
    then have "try_decoders d u k src ds = Panic" using Cons.prems e by (auto split: if_splits)
    from Cons.IH [OF this] show ?thesis by auto
  next
    case True
    have "\<not> safe_decoder dec"
    proof
      assume s: "safe_decoder dec"
      show False
        by (rule safe_decoder.outcomes [OF s assms(1), of "drop (length p) src"])
          (use Cons.prems True e assms(2) in \<open>auto split: if_splits\<close>)
    qed
    with True e show ?thesis by auto
  qed
qed

lemma decoding_panic:
  assumes d: "memchr_ok d" "bytes_ok d" and r: "decoding d errs table src = Panic"
  shows "\<exists>p dec. (p, dec) \<in> set table \<and> eq_ignore_ascii_case (take (length p) src) p \<and>
    \<not> safe_decoder dec"
proof -
  obtain a b where ab: "break_crlf (take BUFSIZE_LIMIT src) = Some (a, b)"
    "try_decoders d (unknown_command errs) (length a) src table = Panic"
    using r by (auto simp: decoding_eq [OF d(1)] split: option.splits if_splits)
  obtain c where "break_crlf src = Some (a, c)" using break_crlf_take [OF ab(1)] by blast
  from length_break_crlf [OF this] try_decoders_panic [OF d _ ab(2)] show ?thesis by simp
qed

lemma server_no_LF: "\<forall>(p, _) \<in> set server_table. p \<noteq> [] \<and> \<not> eq_ignore_ascii_case [LF] (take 1 p)"
  by (simp add: server_table_def eq_ignore_ascii_case_eval lower_val_def byte_val_def Let_def LF_def)

lemma client_no_LF: "\<forall>(p, _) \<in> set client_table. p \<noteq> [] \<and> \<not> eq_ignore_ascii_case [LF] (take 1 p)"
  by (simp add: client_table_def eq_ignore_ascii_case_eval lower_val_def byte_val_def Let_def LF_def)

lemma command_line_in_reach:
  assumes "no_crlf (p @ l)" "length p + length l + 2 \<le> BUFSIZE_LIMIT"
  shows "line_in_reach (p @ l @ CRLF @ rest)"
  using line_in_reachI [OF assms(1), of rest] assms(2) by simp

text \<open>A line that begins with another byte than a command is not that command, cut or whole.\<close>

lemma other_command:
  assumes "w = b # w'" "lower_val b \<noteq> lower_val c"
  shows "\<not> eq_ignore_ascii_case (take (Suc n) (take k w)) (c # cs)"
proof (cases k)
  case (Suc j)
  then show ?thesis using assms by (simp add: eq_ignore_ascii_case_eval)
qed (simp add: eq_ignore_ascii_case_def)

end
