(* ===== verification/Encoder.thy ===== *)
theory Encoder
  imports Headers
begin

text \<open>
  \<open>nats_codec/src/encoder.rs\<close>: the client command encoder. A writer is a function from the
  destination buffer to the buffer after the writes and the error that stopped them, if any;
  \<open>write!\<close> writes its pieces one by one, \<open>?\<close> stops at the first error. The main lemma is that
  with a \<open>BytesMut\<close> behind the writer every command is appended in its wire form.
\<close>

type_synonym writer = "buf \<Rightarrow> buf \<times> io_error option"

definition wseq :: "writer \<Rightarrow> writer \<Rightarrow> writer" where
  "wseq f g dst = (case f dst of (dst', None) \<Rightarrow> g dst' | (dst', Some e) \<Rightarrow> (dst', Some e))"

fun write_fmt :: "crates \<Rightarrow> buf list \<Rightarrow> writer" where
  "write_fmt d [] dst = (dst, None)"
| "write_fmt d (p # ps) dst = wseq (\<lambda>b. writer_write_all d b p) (write_fmt d ps) dst"

definition write_all :: "crates \<Rightarrow> buf \<Rightarrow> writer" where
  "write_all d b dst = writer_write_all d dst b"

definition encode_connect :: "crates \<Rightarrow> connect \<Rightarrow> writer" where
  "encode_connect d c =
     wseq (write_fmt d [''CONNECT ''])
     (wseq (\<lambda>dst. json_to_writer d dst c)
           (write_fmt d [CRLF]))"

definition encode_publish :: "crates \<Rightarrow> publish \<Rightarrow> writer" where
  "encode_publish d p =
     (case pub_reply_to p of
        Some reply_to \<Rightarrow>
          wseq (write_fmt d [''PUB '', pub_subject p, '' '', reply_to, '' '',
                             show_usize (pub_bytes p), CRLF])
          (wseq (write_all d (pub_payload p)) (write_fmt d [CRLF]))
      | None \<Rightarrow>
          wseq (write_fmt d [''PUB '', pub_subject p, '' '', show_usize (pub_bytes p), CRLF])
          (wseq (write_all d (pub_payload p)) (write_fmt d [CRLF])))"

text \<open>The nested \<open>for\<close> loops over the header map.\<close>

fun write_values :: "crates \<Rightarrow> header_name \<Rightarrow> header_value list \<Rightarrow> writer" where
  "write_values d key [] dst = (dst, None)"
| "write_values d key (value # vs) dst =
     wseq (write_fmt d [key, '': '', value, CRLF]) (write_values d key vs) dst"

fun write_headers :: "crates \<Rightarrow> (header_name \<times> header_value list) list \<Rightarrow> writer" where
  "write_headers d [] dst = (dst, None)"
| "write_headers d ((key, values) # es) dst =
     wseq (write_values d key values) (write_headers d es) dst"

definition encode_hpublish :: "crates \<Rightarrow> hpublish \<Rightarrow> writer" where
  "encode_hpublish d p =
     wseq (write_fmt d [''HPUB '', hpub_subject p, '' ''])
     (wseq (case hpub_reply_to p of Some reply_to \<Rightarrow> write_fmt d [reply_to, '' '']
            | None \<Rightarrow> (\<lambda>dst. (dst, None)))
     (wseq (write_fmt d [show_usize (hpub_header_bytes p), '' '',
                         show_usize (hpub_total_bytes p), CRLF])
     (wseq (write_fmt d [''NATS/1.0'', CRLF])
     (wseq (write_headers d (hash_iter d (hpub_headers p)))
     (wseq (write_fmt d [CRLF])
     (wseq (write_all d (hpub_payload p))
           (write_fmt d [CRLF])))))))"

definition encode_subscribe :: "crates \<Rightarrow> subscribe \<Rightarrow> writer" where
  "encode_subscribe d s =
     (case sub_queue_group s of
        Some qg \<Rightarrow> write_fmt d [''SUB '', sub_subject s, '' '', qg, '' '', sub_sid s, CRLF]
      | None \<Rightarrow> write_fmt d [''SUB '', sub_subject s, '' '', sub_sid s, CRLF])"

definition encode_unsubscribe :: "crates \<Rightarrow> unsubscribe \<Rightarrow> writer" where
  "encode_unsubscribe d u =
     (case unsub_max_msgs u of
        Some max_msgs \<Rightarrow>
          write_fmt d [''UNSUB '', unsub_sid u, '' '', show_usize (nz_get max_msgs), CRLF]
      | None \<Rightarrow> write_fmt d [''UNSUB '', unsub_sid u, CRLF])"

definition encode_ping :: "crates \<Rightarrow> writer" where
  "encode_ping d = write_fmt d [''PING'', CRLF]"

definition encode_pong :: "crates \<Rightarrow> writer" where
  "encode_pong d = write_fmt d [''PONG'', CRLF]"

text \<open>\<open>Encoder::encode\<close>: dispatch, and the conversion of the error by \<open>?\<close>.\<close>

definition encode :: "crates \<Rightarrow> client_command \<Rightarrow> buf \<Rightarrow> buf \<times> (client_encode_error + unit)" where
  "encode d item dst =
     (case (case item of
              C_Connect c \<Rightarrow> encode_connect d c
            | C_Publish p \<Rightarrow> encode_publish d p
            | C_HPublish h \<Rightarrow> encode_hpublish d h
            | C_Subscribe s \<Rightarrow> encode_subscribe d s
            | C_Unsubscribe u \<Rightarrow> encode_unsubscribe d u
            | C_Ping \<Rightarrow> encode_ping d
            | C_Pong \<Rightarrow> encode_pong d) dst of
        (dst', None) \<Rightarrow> (dst', Inr ())
      | (dst', Some e) \<Rightarrow> (dst', Inl (EE_IoError e)))"

subsection \<open>The wire form\<close>

text \<open>What the protocol sends for a command; \<open>JSON\<close> text and header order are parameters.\<close>

definition opt_field :: "buf option \<Rightarrow> buf list" where
  "opt_field x = (case x of None \<Rightarrow> [] | Some f \<Rightarrow> [f])"

lemma opt_field_simps [simp]: "opt_field None = []" "opt_field (Some f) = [f]"
  by (simp_all add: opt_field_def)

definition pub_meta :: "publish \<Rightarrow> buf" where
  "pub_meta p = join_fields (pub_subject p # opt_field (pub_reply_to p) @ [show_usize (pub_bytes p)])"

definition hpub_meta :: "hpublish \<Rightarrow> buf" where
  "hpub_meta p = join_fields (hpub_subject p # opt_field (hpub_reply_to p) @
     [show_usize (hpub_header_bytes p), show_usize (hpub_total_bytes p)])"

definition sub_meta :: "subscribe \<Rightarrow> buf" where
  "sub_meta s = join_fields (sub_subject s # opt_field (sub_queue_group s) @ [sub_sid s])"

definition unsub_meta :: "unsubscribe \<Rightarrow> buf" where
  "unsub_meta u = join_fields (unsub_sid u #
     opt_field (map_option (\<lambda>n. show_usize (nz_get n)) (unsub_max_msgs u)))"

fun client_wire :: "crates \<Rightarrow> client_command \<Rightarrow> buf" where
  "client_wire d (C_Connect c) = ''CONNECT '' @ fst (json_to_writer d [] c) @ CRLF"
| "client_wire d (C_Publish p) = ''PUB '' @ pub_meta p @ CRLF @ pub_payload p @ CRLF"
| "client_wire d (C_HPublish p) = ''HPUB '' @ hpub_meta p @ CRLF @
     header_block (flatten_headers (hash_iter d (hpub_headers p))) @ hpub_payload p @ CRLF"
| "client_wire d (C_Subscribe s) = ''SUB '' @ sub_meta s @ CRLF"
| "client_wire d (C_Unsubscribe u) = ''UNSUB '' @ unsub_meta u @ CRLF"
| "client_wire d C_Ping = ''PING'' @ CRLF"
| "client_wire d C_Pong = ''PONG'' @ CRLF"

lemma write_fmt_ok [simp]: "bytes_ok d \<Longrightarrow> write_fmt d ps dst = (dst @ concat ps, None)"
  by (induction ps arbitrary: dst) (simp_all add: wseq_def)

lemma write_all_ok' [simp]: "bytes_ok d \<Longrightarrow> write_all d b dst = (dst @ b, None)"
  by (simp add: write_all_def)

lemma write_values_ok:
  "bytes_ok d \<Longrightarrow> write_values d k vs dst =
    (dst @ concat (map (\<lambda>v. header_line (k, v) @ CRLF) vs), None)"
  by (induction vs arbitrary: dst) (simp_all add: wseq_def header_line_def)

lemma write_headers_ok [simp]:
  "bytes_ok d \<Longrightarrow> write_headers d es dst =
    (dst @ concat (map (\<lambda>kv. header_line kv @ CRLF) (flatten_headers es)), None)"
proof (induction es arbitrary: dst)
  case (Cons e es)
  then show ?case
    by (cases e) (simp add: wseq_def write_values_ok flatten_headers_def o_def)
qed (simp add: flatten_headers_def)

lemma header_block_eq:
  "header_block kvs = ''NATS/1.0'' @ CRLF @ concat (map (\<lambda>kv. header_line kv @ CRLF) kvs) @ CRLF"
  by (simp add: header_block_def NATS_VERSION_def o_def)

text \<open>Encoding appends the wire form and succeeds.\<close>

lemma encode_appends_wire:
  assumes "bytes_ok d" "\<forall>x. c = C_Connect x \<longrightarrow> json_connect_ok d x js"
  shows "encode d c dst = (dst @ client_wire d c, Inr ())"
proof (cases c)
  case (C_Connect x)
  with assms show ?thesis
    by (simp add: encode_def encode_connect_def wseq_def json_connect_ok_def)
next
  case (C_Publish p)
  with assms(1) show ?thesis
    by (cases "pub_reply_to p") (simp_all add: encode_def encode_publish_def wseq_def pub_meta_def)
next
  case (C_HPublish p)
  with assms(1) show ?thesis
    by (cases "hpub_reply_to p")
      (simp_all add: encode_def encode_hpublish_def wseq_def hpub_meta_def header_block_eq)
next
  case (C_Subscribe s)
  with assms(1) show ?thesis
    by (cases "sub_queue_group s") (simp_all add: encode_def encode_subscribe_def wseq_def sub_meta_def)
next
  case (C_Unsubscribe u)
  with assms(1) show ?thesis
    by (cases "unsub_max_msgs u") (simp_all add: encode_def encode_unsubscribe_def wseq_def
      unsub_meta_def)
qed (use assms(1) in \<open>simp_all add: encode_def encode_ping_def encode_pong_def wseq_def\<close>)

end
