(* ===== verification/Client_Codec.thy ===== *)
theory Client_Codec
  imports Framing_Laws Encoder
begin

text \<open>
  \<open>ClientCodec\<close> as a whole: what the encoder writes the decoder reads back. \<open>wf_client\<close> is
  the set of commands for which this holds; its conditions are the ones the wire format and
  the decoders need (fields without space or CR LF, byte counts that are right, a \<open>PUB\<close>
  payload without CR LF, a first line that fits the soft limit), and the lemmas below show
  command by command that they suffice. The interpretation of \<open>frame_codec\<close> lifts the round trip from
  one command to a stream of them.
\<close>

subsection \<open>Commands the wire can carry\<close>

definition wf_publish :: "publish \<Rightarrow> bool" where
  "wf_publish p \<longleftrightarrow> token (pub_subject p) \<and> token_opt (pub_reply_to p) \<and>
     unat (pub_bytes p) = length (pub_payload p) \<and> no_crlf (pub_payload p)"

definition wf_header_map :: "crates \<Rightarrow> header_map \<Rightarrow> bool" where
  "wf_header_map d h \<longleftrightarrow> hash_ok d h \<and>
     (\<forall>e \<in> set (hash_iter d h). snd e \<noteq> [] \<and> (\<forall>v \<in> set (snd e). plain_header (fst e) v))"

definition wf_hpublish :: "crates \<Rightarrow> hpublish \<Rightarrow> bool" where
  "wf_hpublish d p \<longleftrightarrow> token (hpub_subject p) \<and> token_opt (hpub_reply_to p) \<and>
     wf_header_map d (hpub_headers p) \<and> utf8_valid (hpub_payload p) \<and>
     unat (hpub_header_bytes p) =
       length (header_block (flatten_headers (hash_iter d (hpub_headers p)))) \<and>
     unat (hpub_total_bytes p) = unat (hpub_header_bytes p) + length (hpub_payload p)"

definition wf_subscribe :: "subscribe \<Rightarrow> bool" where
  "wf_subscribe s \<longleftrightarrow> token (sub_subject s) \<and> token_opt (sub_queue_group s) \<and> token (sub_sid s)"

text \<open>The first line of the wire form, without its CR LF.\<close>

fun first_line :: "crates \<Rightarrow> client_command \<Rightarrow> buf" where
  "first_line d (C_Connect c) = ''CONNECT '' @ fst (json_to_writer d [] c)"
| "first_line d (C_Publish p) = ''PUB '' @ pub_meta p"
| "first_line d (C_HPublish p) = ''HPUB '' @ hpub_meta p"
| "first_line d (C_Subscribe s) = ''SUB '' @ sub_meta s"
| "first_line d (C_Unsubscribe u) = ''UNSUB '' @ unsub_meta u"
| "first_line d C_Ping = ''PING''"
| "first_line d C_Pong = ''PONG''"

definition wf_client :: "crates \<Rightarrow> client_command \<Rightarrow> bool" where
  "wf_client d c \<longleftrightarrow> length (first_line d c) + 2 \<le> BUFSIZE_LIMIT \<and>
     (case c of
        C_Connect x \<Rightarrow> json_connect_ok d x (fst (json_to_writer d [] x))
      | C_Publish p \<Rightarrow> wf_publish p
      | C_HPublish p \<Rightarrow> wf_hpublish d p
      | C_Subscribe s \<Rightarrow> wf_subscribe s
      | C_Unsubscribe u \<Rightarrow> token (unsub_sid u)
      | C_Ping \<Rightarrow> True
      | C_Pong \<Rightarrow> True)"

subsection \<open>Metadata lines\<close>

lemma no_crlf_join_opt:
  "token f \<Longrightarrow> token_opt x \<Longrightarrow> \<forall>g \<in> set fs. token g \<Longrightarrow> no_crlf (join_fields (f # opt_field x @ fs))"
  by (intro no_crlf_join) (cases x; auto)

lemma pub_meta_no_crlf: "wf_publish p \<Longrightarrow> no_crlf (pub_meta p)"
  unfolding pub_meta_def wf_publish_def by (intro no_crlf_join_opt) auto

lemma hpub_meta_no_crlf: "wf_hpublish d p \<Longrightarrow> no_crlf (hpub_meta p)"
  unfolding hpub_meta_def wf_hpublish_def by (intro no_crlf_join_opt) auto

lemma sub_meta_no_crlf: "wf_subscribe s \<Longrightarrow> no_crlf (sub_meta s)"
  unfolding sub_meta_def wf_subscribe_def by (intro no_crlf_join_opt) auto

lemma no_crlf_show_usize [simp]: "no_crlf (show_usize w)"
  by (rule tokenD) simp

lemma unsub_meta_no_crlf: "token (unsub_sid u) \<Longrightarrow> no_crlf (unsub_meta u)"
  unfolding unsub_meta_def by (intro no_crlf_join) (cases "unsub_max_msgs u"; auto)

lemma no_crlf_command:
  "no_crlf (''CONNECT '' @ s) = no_crlf s" "no_crlf (''PUB '' @ s) = no_crlf s"
  "no_crlf (''HPUB '' @ s) = no_crlf s" "no_crlf (''SUB '' @ s) = no_crlf s"
  "no_crlf (''UNSUB '' @ s) = no_crlf s"
  by (rule no_crlf_prefix, simp add: CR_def, simp add: LF_def)+

lemma no_crlf_ping_pong: "no_crlf ''PING''" "no_crlf ''PONG''"
  by (rule no_crlf_if_no_CR, simp add: CR_def)+

lemma first_line_no_crlf:
  assumes "wf_client d c"
  shows "no_crlf (first_line d c)"
proof (cases c)
  case (C_Connect x)
  with assms have "no_crlf (fst (json_to_writer d [] x))"
    unfolding no_crlf_iff wf_client_def by (auto dest: json_connect_okD(3))
  with C_Connect show ?thesis by (simp only: first_line.simps no_crlf_command)
next
  case (C_Publish p)
  with assms pub_meta_no_crlf show ?thesis
    by (simp only: first_line.simps no_crlf_command) (simp add: wf_client_def)
next
  case (C_HPublish p)
  with assms hpub_meta_no_crlf show ?thesis
    by (simp only: first_line.simps no_crlf_command) (auto simp add: wf_client_def)
next
  case (C_Subscribe s)
  with assms sub_meta_no_crlf show ?thesis
    by (simp only: first_line.simps no_crlf_command) (simp add: wf_client_def)
next
  case (C_Unsubscribe u)
  with assms unsub_meta_no_crlf show ?thesis
    by (simp only: first_line.simps no_crlf_command) (simp add: wf_client_def)
qed (simp_all only: first_line.simps no_crlf_ping_pong)

text \<open>The fields come back.\<close>

lemma pub_fields_meta:
  assumes "memchr_ok d" "wf_publish p"
  shows "pub_fields d (pub_meta p) = Some (pub_subject p, pub_reply_to p, show_usize (pub_bytes p))"
  using assms(2)
  by (cases "pub_reply_to p")
    (auto simp: pub_fields_def pub_meta_def wf_publish_def char_spliterator_eq [OF assms(1)]
      fields_eval eval_nat_numeral)

lemma hpub_fields_meta:
  assumes "memchr_ok d" "wf_hpublish d p"
  shows "hpub_fields d (hpub_meta p) = Some (hpub_subject p, hpub_reply_to p,
    show_usize (hpub_header_bytes p), show_usize (hpub_total_bytes p))"
  using assms(2)
  by (cases "hpub_reply_to p")
    (auto simp: hpub_fields_def hpub_meta_def wf_hpublish_def char_spliterator_eq [OF assms(1)]
      fields_eval eval_nat_numeral)

lemma sub_fields_meta:
  assumes "memchr_ok d" "wf_subscribe s"
  shows "sub_fields d (sub_meta s) = Some
    \<lparr>sp_subject = sub_subject s, sp_queue_group = sub_queue_group s, sp_sid = sub_sid s\<rparr>"
  using assms(2)
  by (cases "sub_queue_group s")
    (auto simp: sub_fields_def sub_meta_def wf_subscribe_def char_spliterator_eq [OF assms(1)]
      fields_eval eval_nat_numeral)

lemma unsub_fields_meta:
  assumes "memchr_ok d" "token (unsub_sid u)"
  shows "unsub_fields d (unsub_meta u) = Some
    \<lparr>up_sid = unsub_sid u,
     up_max_msgs = map_option (\<lambda>n. show_usize (nz_get n)) (unsub_max_msgs u)\<rparr>"
  using assms(2)
  by (cases "unsub_max_msgs u")
    (auto simp: unsub_fields_def unsub_meta_def char_spliterator_eq [OF assms(1)] fields_eval)

subsection \<open>Bodies\<close>

lemma line_body_advance:
  assumes "memchr_ok d" "line_body dec line none" "no_crlf l" "line d l = Some (Inr f)"
  shows "dec d (l @ CRLF @ rest) = Value (Advance f (length l + 2))"
  using line_body_Cons [OF assms(2) slice_spliterator_first [OF assms(1,3), of rest]] assms(4) by simp

lemma sub_decode_wire:
  assumes "memchr_ok d" "wf_subscribe s"
  shows "sub_decode d (sub_meta s @ CRLF @ rest) =
    Value (Advance (C_Subscribe s) (length (sub_meta s) + 2))"
  using assms(2)
  by (intro line_body_advance [OF assms(1) sub_decode_line sub_meta_no_crlf])
    (simp_all add: sub_fields_meta [OF assms] sub_try_from_def wf_subscribe_def)

lemma unsub_decode_wire:
  assumes "memchr_ok d" "token (unsub_sid u)"
  shows "unsub_decode d (unsub_meta u @ CRLF @ rest) =
    Value (Advance (C_Unsubscribe u) (length (unsub_meta u) + 2))"
  using assms(2)
  by (intro line_body_advance [OF assms(1) unsub_decode_line unsub_meta_no_crlf])
    (cases "unsub_max_msgs u"; simp add: unsub_fields_meta [OF assms] unsub_try_from_def
      from_utf8_opt_def from_utf8_valid)+

lemma publish_decode_wire:
  assumes "memchr_ok d" "wf_publish p"
  shows "publish_decode d (pub_meta p @ CRLF @ pub_payload p @ CRLF @ rest) =
    Value (Advance (C_Publish p) (length (pub_meta p) + length (pub_payload p) + 4))"
proof -
  obtain it where "slice_spliterator d (pub_meta p @ CRLF @ pub_payload p @ CRLF @ rest) CRLF =
      (pub_meta p, length (pub_meta p) + 2) #
      (pub_payload p, length (pub_meta p) + length (pub_payload p) + 4) # it"
    using slice_spliterator_two [OF assms(1) pub_meta_no_crlf [OF assms(2)]] assms(2)
    by (auto simp: wf_publish_def)
  then show ?thesis
    using assms(2) pub_fields_meta [OF assms]
    by (simp add: publish_decode_def from_utf8_valid pub_try_from_def wf_publish_def)
qed

lemma connect_decode_wire:
  assumes "memchr_ok d" "json_connect_ok d c js"
  shows "connect_decode d (js @ CRLF @ rest) = Value (Advance (C_Connect c) (length js + 2))"
proof -
  have "no_crlf js" using json_connect_okD(3) [OF assms(2)] by (simp add: no_crlf_iff)
  then show ?thesis
    by (intro line_body_advance [OF assms(1) connect_decode_line])
      (simp_all add: json_connect_okD(2) [OF assms(2)])
qed

lemma utf8_valid_concat [utf8]: "\<forall>x \<in> set xs. utf8_valid x \<Longrightarrow> utf8_valid (concat xs)"
  by (induction xs) (simp_all add: utf8_valid_append)

lemma utf8_valid_header_block:
  assumes "\<forall>(k, v) \<in> set kvs. plain_header k v"
  shows "utf8_valid (header_block kvs)"
proof -
  have c: "utf8_valid CRLF" by (rule utf8_valid_ascii) (simp add: CRLF_def)
  have "utf8_valid NATS_VERSION" by (rule utf8_valid_ascii) (simp add: NATS_VERSION_def byte_val_def)
  moreover have "utf8_valid (header_line kv)" if "kv \<in> set kvs" for kv
    using assms that
    by (cases kv) (auto simp: plain_header_def header_line_def utf8_valid_append byte_val_def)
  ultimately show ?thesis
    unfolding header_block_def by (intro utf8_valid_concat) (auto simp: utf8_valid_append c)
qed

lemma wf_header_map_plain:
  "wf_header_map d h \<Longrightarrow> \<forall>(k, v) \<in> set (flatten_headers (hash_iter d h)). plain_header k v"
  by (fastforce simp: wf_header_map_def flatten_headers_def)

text \<open>The block the encoder writes for a header map parses to the map.\<close>

lemma parse_headers_map:
  assumes "memchr_ok d" "wf_header_map d h"
  shows "parse_headers d (header_block (flatten_headers (hash_iter d h)))
    (length (header_block (flatten_headers (hash_iter d h)))) = Inr h"
  using parse_headers_block [OF assms(1) wf_header_map_plain [OF assms(2)]]
    fold_push_flatten [of "hash_iter d h" Map.empty] assms(2)
  by (simp add: wf_header_map_def hash_ok_def)

text \<open>Header block and payload are there; what comes behind them does not matter.\<close>

lemma hpub_decode_complete:
  assumes d: "memchr_ok d" and wf: "wf_hpublish d p"
  defines "block \<equiv> header_block (flatten_headers (hash_iter d (hpub_headers p)))"
  shows "hpub_decode d (hpub_meta p @ CRLF @ block @ hpub_payload p @ rest) =
    Value (Advance (C_HPublish p) (length (hpub_meta p) + length block + length (hpub_payload p) + 4))"
proof -
  let ?b = "hpub_meta p @ CRLF @ block @ hpub_payload p @ rest"
  let ?m = "length (hpub_meta p) + 2"
  let ?H = "unat (hpub_header_bytes p)" and ?T = "unat (hpub_total_bytes p)"
  have H: "?H = length block" and T: "?T = ?H + length (hpub_payload p)"
    using wf by (simp_all add: wf_hpublish_def block_def)
  have hm: "wf_header_map d (hpub_headers p)" using wf by (simp add: wf_hpublish_def)
  have le: "hpub_header_bytes p \<le> hpub_total_bytes p" using T by (simp add: word_le_nat_alt)
  have s1: "slice_range ?b ?m (?m + ?H) = Value block" by (simp add: slice_range_def H)
  have s2: "slice_range ?b (?m + ?H) (?m + ?T) = Value (hpub_payload p)"
    by (simp add: slice_range_def H T)
  have u: "dbg_utf8 block = Value ()" "dbg_utf8 (hpub_payload p) = Value ()"
    using utf8_valid_header_block [OF wf_header_map_plain [OF hm]] wf
    by (simp_all add: dbg_utf8_def from_utf8_valid block_def wf_hpublish_def)
  have t: "hpub_try_from d
      \<lparr>hpp_subject = hpub_subject p, hpp_reply_to = hpub_reply_to p,
       hpp_header_bytes = hpub_header_bytes p, hpp_total_bytes = hpub_total_bytes p,
       hpp_headers = block, hpp_payload = hpub_payload p\<rparr> = Inr p"
    using parse_headers_map [OF d hm] wf le T H
    by (simp add: hpub_try_from_def wf_hpublish_def block_def unat_sub not_less)
  obtain it where "slice_spliterator d ?b CRLF = (hpub_meta p, ?m) # it"
    using slice_spliterator_first [OF d hpub_meta_no_crlf [OF wf]] by blast
  then show ?thesis
    unfolding hpub_decode_def
    using le T H hpub_fields_meta [OF d wf] s1 s2 u t
    by (simp add: from_utf8_valid not_less [symmetric] del: add_2_eq_Suc add_2_eq_Suc')
qed

lemma hpub_decode_wire:
  assumes "memchr_ok d" "wf_hpublish d p"
  defines "block \<equiv> header_block (flatten_headers (hash_iter d (hpub_headers p)))"
  shows "hpub_decode d (hpub_meta p @ CRLF @ block @ hpub_payload p @ CRLF @ rest) =
    Value (Advance (C_HPublish p) (length (hpub_meta p) + length block + length (hpub_payload p) + 4))"
  using hpub_decode_complete [OF assms(1,2)] by (simp add: block_def)

text \<open>
  A frame that has arrived in part, as for \<open>HMSG\<close>: the length check leaves out the metadata line,
  so that from \<open>total_bytes\<close> bytes on the decoder slices past the buffer and panics.
\<close>

lemma hpub_decode_cut:
  assumes d: "memchr_ok d" and wf: "wf_hpublish d p" and k: "k \<le> length frame"
    and frame: "frame = hpub_meta p @ CRLF @ header_block (flatten_headers (hash_iter d (hpub_headers p))) @
      hpub_payload p @ CRLF"
  shows "hpub_decode d (take k frame) =
    (if k < length (hpub_meta p) + 2 \<or> k < unat (hpub_total_bytes p) then Value (FrameTooShort None)
     else if k < length (hpub_meta p) + 2 + unat (hpub_total_bytes p) then Panic
     else Value (Advance (C_HPublish p) (length frame)))"
proof (cases "k < length (hpub_meta p) + 2")
  case True
  then have "slice_spliterator d (take k frame) CRLF = []"
    using no_crlf_cut_line [OF hpub_meta_no_crlf [OF wf] True]
    by (simp add: slice_spliterator_Nil_iff [OF d] frame)
  then show ?thesis using True by (simp add: hpub_decode_def)
next
  case False
  let ?block = "header_block (flatten_headers (hash_iter d (hpub_headers p)))"
  let ?H = "unat (hpub_header_bytes p)" and ?T = "unat (hpub_total_bytes p)" and ?m = "length (hpub_meta p) + 2"
  have H: "?H = length ?block" and T: "?T = ?H + length (hpub_payload p)"
    using wf by (simp_all add: wf_hpublish_def)
  then have nlt: "\<not> hpub_total_bytes p < hpub_header_bytes p" by (simp add: word_less_nat_alt)
  define body where "body = take (k - ?m) (?block @ hpub_payload p @ CRLF)"
  have b: "take k frame = hpub_meta p @ CRLF @ body" using False by (simp add: frame body_def)
  have lk: "length (hpub_meta p @ CRLF @ body) = k" using k unfolding b [symmetric] by simp
  obtain it where it: "slice_spliterator d (hpub_meta p @ CRLF @ body) CRLF = (hpub_meta p, ?m) # it"
    using slice_spliterator_first [OF d hpub_meta_no_crlf [OF wf]] by blast
  show ?thesis
  proof (cases "k < ?m + ?T")
    case short: True
    let ?b = "hpub_meta p @ CRLF @ body"
    have s: "slice_range ?b (?m + ?H) (?m + ?T) = Panic"
      using short lk by (simp add: slice_range_def del: length_append)
    have "hpub_decode d ?b = (if k < ?T then Value (FrameTooShort None)
       else run_bind (slice_range ?b ?m (?m + ?H)) (\<lambda>headers. run_bind (dbg_utf8 headers) (\<lambda>_. Panic)))"
      using nlt lk s
      by (simp add: hpub_decode_def it hpub_fields_meta [OF d wf] from_utf8_valid
          del: length_append add_2_eq_Suc add_2_eq_Suc')
    moreover have "run_bind (slice_range ?b ?m (?m + ?H)) (\<lambda>headers. run_bind (dbg_utf8 headers) (\<lambda>_. Panic)) =
        (Panic :: (client_command, client_decode_error) command_decoder_result run)"
      by (simp add: run_bind_eq_Panic)
    ultimately show ?thesis using short False unfolding b by auto
  next
    case full: False
    then obtain t where t: "body = ?block @ hpub_payload p @ t"
      using H T lk by (auto simp: body_def take_append)
    then show ?thesis
      using full False T H hpub_decode_complete [OF d wf, of t] unfolding b by (simp add: frame)
  qed
qed

subsection \<open>The round trip\<close>

lemma client_decode_hit:
  assumes "memchr_ok d" "bytes_ok d" "(p, dec) \<in> set client_table"
    and "line_in_reach (p @ body @ rest)"
    and "dec d (body @ rest) = Value (Advance f (length body))"
  shows "client_decode d (p @ body @ rest) = Value (Inr (Some f), rest)"
  using client_dispatch [OF assms(1,2,3) eq_ignore_ascii_case_refl assms(4)] assms(5)
  by (simp add: body_step_def)

lemma client_wire_in_reach:
  assumes "wf_client d c"
  shows "line_in_reach (client_wire d c @ rest)"
proof -
  have "\<exists>r. client_wire d c @ rest = first_line d c @ CRLF @ r" by (cases c) simp_all
  then obtain r where "client_wire d c @ rest = first_line d c @ CRLF @ r" by blast
  with line_in_reachI [OF first_line_no_crlf [OF assms]] assms show ?thesis
    by (simp add: wf_client_def)
qed

lemma client_table_mem:
  "(''PING'', ping_client_decode) \<in> set client_table" "(''PONG'', pong_client_decode) \<in> set client_table"
  "(''HPUB '', hpub_decode) \<in> set client_table" "(''PUB '', publish_decode) \<in> set client_table"
  "(''SUB '', sub_decode) \<in> set client_table" "(''UNSUB '', unsub_decode) \<in> set client_table"
  "(''CONNECT '', connect_decode) \<in> set client_table"
  by (simp_all add: client_table_def)

text \<open>The wire form as prefix and body, with the decoder that reads the body.\<close>

lemma empty_body_wire:
  "memchr_ok d \<Longrightarrow> empty_body f d (CRLF @ rest) = Value (Advance f 2)"
  using slice_spliterator_first [of d "[]" rest] by (simp add: empty_body_def)

lemma client_wire_body:
  assumes d: "memchr_ok d" and wf: "wf_client d c"
  obtains p dec body where "(p, dec) \<in> set client_table" "client_wire d c = p @ body"
    "\<And>rest. dec d (body @ rest) = Value (Advance c (length body))"
proof (cases c)
  case (C_Connect x)
  with wf connect_decode_wire [OF d, of x] that [OF client_table_mem(7)] show ?thesis
    by (simp add: wf_client_def)
next
  case (C_Publish p)
  with wf publish_decode_wire [OF d, of p] that [OF client_table_mem(4)] show ?thesis
    by (simp add: wf_client_def)
next
  case (C_HPublish p)
  with wf hpub_decode_wire [OF d, of p] that [OF client_table_mem(3)] show ?thesis
    by (simp add: wf_client_def)
next
  case (C_Subscribe s)
  with wf sub_decode_wire [OF d, of s] that [OF client_table_mem(5)] show ?thesis
    by (simp add: wf_client_def)
next
  case (C_Unsubscribe u)
  with wf unsub_decode_wire [OF d, of u] that [OF client_table_mem(6)] show ?thesis
    by (simp add: wf_client_def)
next
  case C_Ping
  with empty_body_wire [OF d] show ?thesis
    by (intro that [OF client_table_mem(1), of CRLF]) (simp_all add: ping_client_decode_def)
next
  case C_Pong
  with empty_body_wire [OF d] show ?thesis
    by (intro that [OF client_table_mem(2), of CRLF]) (simp_all add: pong_client_decode_def)
qed

lemma client_round_trip_lemma:
  assumes "memchr_ok d" "bytes_ok d" "wf_client d c"
  shows "client_decode d (client_wire d c @ rest) = Value (Inr (Some c), rest)"
proof -
  obtain p dec body where b: "(p, dec) \<in> set client_table" "client_wire d c = p @ body"
    "\<And>rest. dec d (body @ rest) = Value (Advance c (length body))"
    by (metis client_wire_body [OF assms(1,3)])
  have "line_in_reach (p @ body @ rest)"
    using client_wire_in_reach [OF assms(3), of rest] b(2) by simp
  from client_decode_hit [OF assms(1,2) b(1) this b(3)] b(2) show ?thesis by simp
qed

lemma encode_wf:
  assumes "bytes_ok d" "wf_client d c"
  shows "encode d c dst = (dst @ client_wire d c, Inr ())"
proof (rule encode_appends_wire [OF assms(1)])
  show "\<forall>x. c = C_Connect x \<longrightarrow>
      json_connect_ok d x (case c of C_Connect x \<Rightarrow> fst (json_to_writer d [] x))"
    using assms(2) by (cases c) (simp_all add: wf_client_def)
qed

subsection \<open>Wire forms that have arrived in part\<close>

text \<open>The client's decoder panics in \<open>HPUB\<close> only.\<close>

lemma client_panic_hpub:
  assumes "memchr_ok d" "bytes_ok d" "client_decode d src = Panic"
  shows "eq_ignore_ascii_case (take 5 src) ''HPUB ''"
proof -
  obtain p dec where p: "(p, dec) \<in> set client_table"
    "eq_ignore_ascii_case (take (length p) src) p" "\<not> safe_decoder dec"
    using decoding_panic [OF assms(1,2)] assms(3) unfolding client_decode_def by blast
  then have "p = ''HPUB ''"
    using client_table_cases [OF p(1)] ping_client.safe_decoder_axioms pong_client.safe_decoder_axioms
      publish_dec.safe_decoder_axioms sub_dec.safe_decoder_axioms unsub_dec.safe_decoder_axioms
      connect_dec.safe_decoder_axioms
    by (elim disjE) simp_all
  with p(2) show ?thesis by (simp add: eval_nat_numeral)
qed

text \<open>The prefixes of a wire form on which the decoder panics, as on the server's side.\<close>

fun client_fatal :: "client_command \<Rightarrow> nat \<Rightarrow> bool" where
  "client_fatal (C_HPublish p) k \<longleftrightarrow> length (hpub_meta p) + 7 \<le> k \<and> unat (hpub_total_bytes p) + 5 \<le> k"
| "client_fatal _ k \<longleftrightarrow> False"

lemma client_fatalD:
  "client_fatal c k \<Longrightarrow> \<exists>p. c = C_HPublish p \<and> length (hpub_meta p) + 7 \<le> k \<and> unat (hpub_total_bytes p) + 5 \<le> k"
  by (cases c) auto

lemma client_hpub_cut:
  assumes d: "memchr_ok d" "bytes_ok d" and wf: "wf_client d (C_HPublish p)"
    and k: "k < length (client_wire d (C_HPublish p))"
  shows "client_decode d (take k (client_wire d (C_HPublish p))) =
    (if client_fatal (C_HPublish p) k then Panic
     else Value (Inr None, take k (client_wire d (C_HPublish p))))"
proof -
  define frame where "frame = hpub_meta p @ CRLF @
    header_block (flatten_headers (hash_iter d (hpub_headers p))) @ hpub_payload p @ CRLF"
  have w: "client_wire d (C_HPublish p) = ''HPUB '' @ frame" by (simp add: frame_def)
  have h: "wf_hpublish d p" and l: "length (hpub_meta p) + 7 \<le> BUFSIZE_LIMIT"
    using wf by (simp_all add: wf_client_def)
  have nc: "no_crlf (''HPUB '' @ hpub_meta p)" using hpub_meta_no_crlf [OF h] by (simp only: no_crlf_command)
  show ?thesis
  proof (cases "k < length (hpub_meta p) + 7")
    case True
    from no_crlf_cut_line [OF nc, of k] True
    have n: "no_crlf (take k (''HPUB '' @ frame))" by (simp add: frame_def)
    define s where "s = take k (''HPUB '' @ frame)"
    have "length s < BUFSIZE_LIMIT" using True l by (simp add: s_def)
    then have "client_decode d s = Value (Inr None, s)"
      using client.decoding_no_line [OF d(1), of s] n [folded s_def] by (simp add: client_decode_def)
    then show ?thesis using True unfolding w by (simp add: s_def)
  next
    case False
    define b where "b = take (k - 5) frame"
    have b: "take k (''HPUB '' @ frame) = ''HPUB '' @ b"
      using False by (simp add: b_def take_Cons' eval_nat_numeral)
    have k': "k - 5 \<le> length frame" and lb: "length b = k - 5" using k unfolding w by (simp_all add: b_def)
    have "b = hpub_meta p @ CRLF @ take (k - 7 - length (hpub_meta p))
        (header_block (flatten_headers (hash_iter d (hpub_headers p))) @ hpub_payload p @ CRLF)"
      using False by (simp add: b_def frame_def)
    then have "line_in_reach (''HPUB '' @ b)"
      using command_line_in_reach [OF nc] l by simp
    note step = client_dispatch [OF d client_table_mem(3) eq_ignore_ascii_case_refl this]
    have T: "length frame = length (hpub_meta p) + 4 + unat (hpub_total_bytes p)"
      using h by (simp add: frame_def wf_hpublish_def)
    show ?thesis
      unfolding w b step body_step_def hpub_decode_cut [OF d(1) h k' frame_def, folded b_def]
      using k [unfolded w] False lb T by auto
  qed
qed

lemma client_wire_head:
  assumes "\<forall>p. c \<noteq> C_HPublish p"
  shows "\<exists>b w. client_wire d c = b # w \<and> lower_val b \<noteq> lower_val (CHR ''H'')"
  using assms by (cases c) (simp_all add: lower_val_def byte_val_def)

lemma client_cut:
  assumes d: "memchr_ok d" "bytes_ok d" and wf: "wf_client d c" and k: "k < length (client_wire d c)"
  shows "client_decode d (take k (client_wire d c)) =
    (if client_fatal c k then Panic else Value (Inr None, take k (client_wire d c)))"
proof (cases "\<exists>p. c = C_HPublish p")
  case True
  with client_hpub_cut [OF d] wf k show ?thesis by blast
next
  case False
  then obtain b w where "client_wire d c = b # w" "lower_val b \<noteq> lower_val (CHR ''H'')"
    using client_wire_head by blast
  then have "client_decode d (take k (client_wire d c)) \<noteq> Panic"
    using client_panic_hpub [OF d] other_command [of _ b w "CHR ''H''" 4 k] by fastforce
  moreover have "\<not> client_fatal c k" using False by (cases c) auto
  ultimately show ?thesis
    using client_dec.cut_waits [OF d _ k] client_round_trip_lemma [OF d wf, of "[]"] by simp
qed

subsection \<open>Streams of commands\<close>

interpretation client_codec: frame_codec client_decode client_wire wf_client client_fatal
  by unfold_locales (fact client_round_trip_lemma client_cut)+

text \<open>The encoder run over a list of commands, as \<open>FramedWrite\<close> does.\<close>

fun encode_all :: "crates \<Rightarrow> client_command list \<Rightarrow> buf \<Rightarrow> buf \<times> (client_encode_error + unit)" where
  "encode_all d [] dst = (dst, Inr ())"
| "encode_all d (c # cs) dst =
     (case encode d c dst of (dst', Inr _) \<Rightarrow> encode_all d cs dst' | (dst', Inl e) \<Rightarrow> (dst', Inl e))"

lemma encode_all_wire:
  "bytes_ok d \<Longrightarrow> \<forall>c \<in> set cs. wf_client d c \<Longrightarrow>
   encode_all d cs dst = (dst @ concat (map (client_wire d) cs), Inr ())"
  by (induction cs arbitrary: dst) (simp_all add: encode_wf)

subsection \<open>Decoded strings are strings\<close>

lemma client_plain_body_utf8:
  "ping_client_decode d b = Value (Advance c n) \<Longrightarrow> utf8_client c"
  "pong_client_decode d b = Value (Advance c n) \<Longrightarrow> utf8_client c"
  by (auto simp: ping_client_decode_def pong_client_decode_def dest!: empty_body_frame)

lemma connect_decode_utf8: "json_strings_ok d \<Longrightarrow> connect_decode d b = Value (Advance c n) \<Longrightarrow> utf8_client c"
  by (auto simp: connect_decode_def json_strings_ok_def split: list.splits option.splits)

lemma client_table_utf8:
  assumes "json_strings_ok d" "(p, dec) \<in> set client_table" "dec d b = Value (Advance c n)"
  shows "utf8_client c"
  using client_table_cases [OF assms(2)] assms(3) client_plain_body_utf8 sub_decode_utf8
    unsub_decode_utf8 publish_decode_utf8 hpub_decode_utf8 connect_decode_utf8 [OF assms(1)]
  by (elim disjE) (simp_all only: prod.inject)

subsection \<open>HPUB payloads that are not text\<close>

text \<open>The decoder with its debug output: a complete frame whose payload is not UTF-8 panics.\<close>

lemma hpub_decode_binary:
  assumes d: "memchr_ok d" and wf: "wf_hpublish d (p\<lparr>hpub_payload := q\<rparr>)"
    and len: "length (hpub_payload p) = length q" and bin: "\<not> utf8_valid (hpub_payload p)"
  defines "block \<equiv> header_block (flatten_headers (hash_iter d (hpub_headers p)))"
  shows "hpub_decode d (hpub_meta p @ CRLF @ block @ hpub_payload p @ CRLF @ rest) = Panic"
proof -
  let ?q = "p\<lparr>hpub_payload := q\<rparr>"
  let ?b = "hpub_meta p @ CRLF @ block @ hpub_payload p @ CRLF @ rest"
  let ?m = "length (hpub_meta p) + 2"
  let ?H = "unat (hpub_header_bytes p)" and ?T = "unat (hpub_total_bytes p)"
  have meta: "hpub_meta ?q = hpub_meta p" by (simp add: hpub_meta_def)
  have H: "?H = length block" and T: "?T = ?H + length (hpub_payload p)"
    using wf len by (simp_all add: wf_hpublish_def block_def)
  have hm: "wf_header_map d (hpub_headers p)" using wf by (simp add: wf_hpublish_def)
  have le: "hpub_header_bytes p \<le> hpub_total_bytes p" using T by (simp add: word_le_nat_alt)
  have s1: "slice_range ?b ?m (?m + ?H) = Value block" by (simp add: slice_range_def H)
  have s2: "slice_range ?b (?m + ?H) (?m + ?T) = Value (hpub_payload p)"
    by (simp add: slice_range_def H T)
  have u: "dbg_utf8 block = Value ()" "dbg_utf8 (hpub_payload p) = Panic"
    using utf8_valid_header_block [OF wf_header_map_plain [OF hm]] bin
    by (simp_all add: dbg_utf8_def from_utf8_valid block_def from_utf8_def)
  have f: "hpub_fields d (hpub_meta p) = Some (hpub_subject p, hpub_reply_to p,
    show_usize (hpub_header_bytes p), show_usize (hpub_total_bytes p))"
    using hpub_fields_meta [OF d wf] by (simp add: meta)
  obtain it where "slice_spliterator d ?b CRLF = (hpub_meta p, ?m) # it"
    using slice_spliterator_first [OF d hpub_meta_no_crlf [OF wf]] unfolding meta by blast
  then show ?thesis
    unfolding hpub_decode_def
    using le T H f s1 s2 u
    by (simp add: from_utf8_valid not_less [symmetric] del: add_2_eq_Suc add_2_eq_Suc')
qed

lemma client_hpub_binary:
  assumes "memchr_ok d" "bytes_ok d" "wf_client d (C_HPublish (p\<lparr>hpub_payload := q\<rparr>))"
    and "length (hpub_payload p) = length q" "\<not> utf8_valid (hpub_payload p)"
  shows "client_decode d (client_wire d (C_HPublish p) @ rest) = Panic"
proof -
  have wf: "wf_hpublish d (p\<lparr>hpub_payload := q\<rparr>)"
    and l: "length (hpub_meta p) + 7 \<le> BUFSIZE_LIMIT" and m: "hpub_meta (p\<lparr>hpub_payload := q\<rparr>) = hpub_meta p"
    using assms(3) by (simp_all add: wf_client_def hpub_meta_def)
  have "no_crlf (''HPUB '' @ hpub_meta p)"
    using hpub_meta_no_crlf [OF wf] m by (simp only: no_crlf_command)
  from command_line_in_reach [OF this] l
  have r: "line_in_reach (''HPUB '' @ hpub_meta p @ CRLF @ w)" for w by simp
  show ?thesis
    using client_dispatch [OF assms(1,2) client_table_mem(3) eq_ignore_ascii_case_refl r]
      hpub_decode_binary [OF assms(1) wf assms(4,5), of rest]
    by (simp add: body_step_def)
qed

text \<open>A published message with one header and one byte that is not UTF-8.\<close>

definition hpub_deps :: crates where
  "hpub_deps = ref_crates [(''K'', [''v''])] ref_connect_json ref_connect ''{}'' ref_info"

definition sample_hpublish :: hpublish where
  "sample_hpublish = \<lparr>hpub_subject = ''s'', hpub_reply_to = None, hpub_header_bytes = 18,
     hpub_total_bytes = 19, hpub_headers = [''K'' \<mapsto> [''v'']], hpub_payload = [CHR 0xFF]\<rparr>"

lemma wf_sample_hpublish: "wf_client hpub_deps (C_HPublish (sample_hpublish\<lparr>hpub_payload := ''x''\<rparr>))"
  by (simp add: sample_hpublish_def hpub_deps_def ref_crates_def wf_client_def wf_hpublish_def
      wf_header_map_def hash_ok_def plain_header_def token_def header_block_def header_line_def
      flatten_headers_def NATS_VERSION_def utf8_valid_ascii no_crlf_def CR_def byte_val_def
      hpub_meta_def show_usize_def show_nat.simps BUFSIZE_LIMIT_def)

lemma sample_hpublish_bin: "\<not> utf8_valid (hpub_payload sample_hpublish)"
  by (simp add: sample_hpublish_def utf8_valid.simps utf8_next.simps utf8_width_def byte_val_def)

subsection \<open>Properties\<close>

definition sample_publish :: publish where
  "sample_publish = \<lparr>pub_subject = ''a'', pub_reply_to = None, pub_bytes = 2, pub_payload = ''hi''\<rparr>"

definition sample_subscribe :: subscribe where
  "sample_subscribe = \<lparr>sub_subject = ''a'', sub_queue_group = Some ''g'', sub_sid = ''1''\<rparr>"

lemma wf_samples:
  "wf_client ref_deps (C_Publish sample_publish)" "wf_client ref_deps (C_Subscribe sample_subscribe)"
  "wf_client ref_deps C_Ping"
  by (simp_all add: sample_publish_def sample_subscribe_def wf_client_def wf_publish_def wf_subscribe_def
      token_def utf8_valid_ascii no_crlf_def CR_def byte_val_def pub_meta_def sub_meta_def
      show_usize_def show_nat.simps BUFSIZE_LIMIT_def)

text \<open>One command at a time.\<close>

lemma client_encode_decode:
  assumes "memchr_ok d" "bytes_ok d" "wf_client d c"
  shows "\<exists>frame. encode d c dst = (dst @ frame, Inr ()) \<and>
    client_decode d (frame @ rest) = Value (Inr (Some c), rest)"
  using encode_wf [OF assms(2,3)] client_round_trip_lemma [OF assms] by blast

text \<open>C1: A stream of commands survives encoding, transport and decoding, and exactly where the reader
  dies: the encoder accepts the whole list of well-formed commands and its output decodes to that
  list with nothing left over. A reader that decodes after every read has, however the output was
  cut, the whole list and an empty buffer, unless one of its reads ended inside an \<open>HPUB\<close> with the
  metadata line and \<open>total_bytes\<close> bytes there but the frame not complete; then it panics at the
  first such read, with the commands before that \<open>HPUB\<close> decoded.\<close>

theorem client_stream_round_trip:
  assumes "memchr_ok d" "bytes_ok d" "\<forall>c \<in> set cs. wf_client d c"
  shows "\<exists>w. encode_all d cs [] = (w, Inr ()) \<and> frames (client_decode d) w cs [] \<and>
    (\<forall>chunks. concat chunks = w \<longrightarrow> framed_read (client_decode d) [] chunks = Some
      (case find (fatal_cut client_fatal (client_wire d) cs) (read_ends 0 chunks) of
         None \<Rightarrow> (cs, Waits [])
       | Some n \<Rightarrow> (completed (client_wire d) cs n, Panics)) \<and>
      (\<forall>fs. framed_read (client_decode d) [] chunks = Some (fs, Panics) \<longrightarrow>
        (\<exists>p cs2 k. cs = fs @ C_HPublish p # cs2 \<and>
          length (hpub_meta p) + 7 \<le> k \<and> unat (hpub_total_bytes p) + 5 \<le> k \<and>
          k < length (client_wire d (C_HPublish p)) \<and>
          length (concat (map (client_wire d) fs)) + k \<in> set (read_ends 0 chunks))))"
proof -
  have "\<exists>p cs2 k. cs = fs @ C_HPublish p # cs2 \<and>
      length (hpub_meta p) + 7 \<le> k \<and> unat (hpub_total_bytes p) + 5 \<le> k \<and>
      k < length (client_wire d (C_HPublish p)) \<and>
      length (concat (map (client_wire d) fs)) + k \<in> set (read_ends 0 chunks)"
    if "concat chunks = concat (map (client_wire d) cs)"
      "framed_read (client_decode d) [] chunks = Some (fs, Panics)" for chunks fs
    using client_codec.framed_read_panics [OF assms that] client_fatalD by blast
  then show ?thesis
    using encode_all_wire [OF assms(2,3), of "[]"] client_codec.frames_stream [OF assms, of "[]"]
      client_codec.framed_read_stream [OF assms]
    by (simp add: read_result_def)
qed

definition text_hpublish :: hpublish where
  "text_hpublish = sample_hpublish\<lparr>hpub_payload := ''x''\<rparr>"

lemma text_hpublish_wire:
  "length (client_wire hpub_deps (C_HPublish text_hpublish)) = 35" "length (hpub_meta text_hpublish) = 7"
  "unat (hpub_total_bytes text_hpublish) = 19"
  by (simp_all add: text_hpublish_def sample_hpublish_def hpub_deps_def ref_crates_def header_block_def
      header_line_def flatten_headers_def NATS_VERSION_def hpub_meta_def show_usize_def show_nat.simps)

theorem client_stream_round_trip_witness:
  "\<exists>w. encode_all hpub_deps [C_Ping, C_HPublish text_hpublish] [] = (w, Inr ()) \<and>
    framed_read (client_decode hpub_deps) [] [take 3 w, drop 3 w] =
      Some ([C_Ping, C_HPublish text_hpublish], Waits []) \<and>
    framed_read (client_decode hpub_deps) [] [take 36 w, drop 36 w] = Some ([C_Ping], Panics)"
proof -
  let ?cs = "[C_Ping, C_HPublish text_hpublish]"
  have "\<forall>c \<in> set ?cs. wf_client hpub_deps c"
    using wf_sample_hpublish by (simp add: text_hpublish_def wf_client_def BUFSIZE_LIMIT_def)
  from client_stream_round_trip [OF _ _ this] obtain w where
    w: "encode_all hpub_deps ?cs [] = (w, Inr ())" and
    f: "frames (client_decode hpub_deps) w ?cs []" and
    r: "\<And>chunks. concat chunks = w \<Longrightarrow> framed_read (client_decode hpub_deps) [] chunks = Some
      (case find (fatal_cut client_fatal (client_wire hpub_deps) ?cs) (read_ends 0 chunks) of
         None \<Rightarrow> (?cs, Waits [])
       | Some n \<Rightarrow> (completed (client_wire hpub_deps) ?cs n, Panics))"
    by (auto simp: hpub_deps_def)
  have "w = concat (map (client_wire hpub_deps) ?cs)"
    using encode_all_wire [of hpub_deps ?cs "[]"] \<open>\<forall>c \<in> set ?cs. _\<close> w by (simp add: hpub_deps_def)
  then have l: "length w = 41" using text_hpublish_wire by simp
  have "framed_read (client_decode hpub_deps) [] [take 3 w, drop 3 w] = Some (?cs, Waits [])"
    by (subst r) (simp_all add: l text_hpublish_wire del: client_wire.simps(3))
  moreover have "framed_read (client_decode hpub_deps) [] [take 36 w, drop 36 w] = Some ([C_Ping], Panics)"
    by (subst r) (simp_all add: l text_hpublish_wire del: client_wire.simps(3))
  ultimately show ?thesis using w by blast
qed

text \<open>No command's frame is the beginning of another's.\<close>

lemma client_wire_is_prefix_code:
  assumes "memchr_ok d" "bytes_ok d" "wf_client d a" "wf_client d b"
    and "fst (encode d a []) @ r = fst (encode d b []) @ s"
  shows "a = b \<and> r = s"
  using client_codec.enc_inj [OF assms(1-4), of r s] assms(5)
  unfolding encode_wf [OF assms(2,3)] encode_wf [OF assms(2,4)] by simp

lemma client_frames_are_utf8:
  assumes "bytes_ok d" "json_strings_ok d" "client_decode d src = Value (Inr (Some c), rest)"
  shows "utf8_client c"
  using client_frameE [OF assms(1,3)] client_table_utf8 [OF assms(2)] by metis

text \<open>C39: The client-side decoder panics on \<open>HPUB\<close> lines only.\<close>

theorem client_panics_only_in_hpub:
  assumes "memchr_ok d" "bytes_ok d" "client_decode d src = Panic"
  shows "eq_ignore_ascii_case (take 5 src) ''HPUB ''"
  by (rule client_panic_hpub [OF assms])

theorem client_panics_only_in_hpub_witness:
  "eq_ignore_ascii_case (take 5 (client_wire hpub_deps (C_HPublish sample_hpublish) @ [])) ''HPUB ''"
  by (rule client_panics_only_in_hpub [OF _ _
        client_hpub_binary [OF _ _ wf_sample_hpublish _ sample_hpublish_bin]])
    (simp_all add: hpub_deps_def sample_hpublish_def)

text \<open>C40: A published payload with headers must be text although payloads are bytes: the decoder
  prints it with an unchecked conversion, so a complete \<open>HPUB\<close> frame, well-formed but for a payload
  that is not UTF-8, makes it panic.\<close>

theorem client_panics_on_binary_hpub:
  assumes "memchr_ok d" "bytes_ok d" "wf_client d (C_HPublish (p\<lparr>hpub_payload := q\<rparr>))"
    and "length (hpub_payload p) = length q" "\<not> utf8_valid (hpub_payload p)"
  shows "client_decode d (client_wire d (C_HPublish p) @ rest) = Panic"
  by (rule client_hpub_binary [OF assms])

theorem client_panics_on_binary_hpub_witness:
  "client_decode hpub_deps (client_wire hpub_deps (C_HPublish sample_hpublish) @ []) = Panic"
  by (rule client_panics_on_binary_hpub [OF _ _ wf_sample_hpublish _ sample_hpublish_bin])
    (simp_all add: hpub_deps_def sample_hpublish_def)

end
