(* ===== verification/Server_Codec.thy ===== *)
theory Server_Codec
  imports Framing_Laws
begin

text \<open>
  \<open>ServerCodec\<close> as a whole: what the framing loop and the body decoders do together on the
  bytes a server sends: that commands come back, alone and in streams cut into reads, and what
  happens on frames that have arrived in part, on malformed lines and on lines too long.
\<close>

subsection \<open>The table\<close>

lemma server_body_frames:
  "ping_server_decode d b = Value (Advance c n) \<Longrightarrow> c = S_Ping"
  "pong_server_decode d b = Value (Advance c n) \<Longrightarrow> c = S_Pong"
  "ok_decode d b = Value (Advance c n) \<Longrightarrow> c = S_Ok"
  "err_decode d b = Value (Advance c n) \<Longrightarrow> \<exists>m. c = S_Err m"
  "msg_decode d b = Value (Advance c n) \<Longrightarrow> \<exists>m. c = S_Msg m"
  by (auto simp: ping_server_decode_def pong_server_decode_def ok_decode_def empty_body_def
      err_decode_def msg_decode_def
      split: list.splits option.splits if_splits run.splits sum.splits)

lemma hmsg_body_frame: "hmsg_decode d b = Value (Advance c n) \<Longrightarrow> \<exists>m. c = S_HMsg m"
  by (auto simp: hmsg_decode_def split: list.splits option.splits if_splits)
    (auto split: sum.splits)

lemma plain_body_utf8:
  "ping_server_decode d b = Value (Advance c n) \<Longrightarrow> utf8_server c"
  "pong_server_decode d b = Value (Advance c n) \<Longrightarrow> utf8_server c"
  "ok_decode d b = Value (Advance c n) \<Longrightarrow> utf8_server c"
  by (fastforce dest: server_body_frames(1-3))+

lemma info_decode_utf8: "json_strings_ok d \<Longrightarrow> info_decode d b = Value (Advance c n) \<Longrightarrow> utf8_server c"
  by (auto simp: info_decode_def json_strings_ok_def split: list.splits option.splits)

lemma server_table_utf8:
  assumes "json_strings_ok d" "(p, dec) \<in> set server_table" "dec d b = Value (Advance c n)"
  shows "utf8_server c"
  using server_table_cases [OF assms(2)] assms(3) plain_body_utf8 err_decode_utf8
    msg_decode_utf8 hmsg_decode_utf8 info_decode_utf8 [OF assms(1)]
  by (elim disjE) (simp_all only: prod.inject)

lemma not_msg_frame:
  "ping_server_decode d b \<noteq> Value (Advance (S_Msg m) n)"
  "pong_server_decode d b \<noteq> Value (Advance (S_Msg m) n)"
  "ok_decode d b \<noteq> Value (Advance (S_Msg m) n)"
  "err_decode d b \<noteq> Value (Advance (S_Msg m) n)"
  "info_decode d b \<noteq> Value (Advance (S_Msg m) n)"
  "hmsg_decode d b \<noteq> Value (Advance (S_Msg m) n)"
  by (fastforce dest: server_body_frames(1-4) info_decode_frame hmsg_body_frame)+

lemma server_table_msg:
  assumes "(p, dec) \<in> set server_table" "dec d b = Value (Advance (S_Msg m) n)"
  shows "p = ''MSG '' \<and> dec = msg_decode"
  using server_table_cases [OF assms(1)] assms(2)
  by (elim disjE) (simp_all only: prod.inject not_msg_frame simp_thms)

lemma not_hmsg_frame:
  "ping_server_decode d b \<noteq> Value (Advance (S_HMsg m) n)"
  "pong_server_decode d b \<noteq> Value (Advance (S_HMsg m) n)"
  "ok_decode d b \<noteq> Value (Advance (S_HMsg m) n)"
  "err_decode d b \<noteq> Value (Advance (S_HMsg m) n)"
  "info_decode d b \<noteq> Value (Advance (S_HMsg m) n)"
  "msg_decode d b \<noteq> Value (Advance (S_HMsg m) n)"
  by (fastforce dest: server_body_frames info_decode_frame)+

lemma server_table_hmsg:
  assumes "(p, dec) \<in> set server_table" "dec d b = Value (Advance (S_HMsg m) n)"
  shows "p = ''HMSG '' \<and> dec = hmsg_decode"
  using server_table_cases [OF assms(1)] assms(2)
  by (elim disjE) (simp_all only: prod.inject not_hmsg_frame simp_thms)

lemma server_no_unknown:
  "\<forall>(p, dec) \<in> set server_table. \<forall>b. dec d b \<noteq> Value (FatalError SE_UnknownCommand)"
proof -
  have "msg_decode d b \<noteq> Value (FatalError SE_UnknownCommand)"
    "err_decode d b \<noteq> Value (FatalError SE_UnknownCommand)"
    "info_decode d b \<noteq> Value (FatalError SE_UnknownCommand)"
    "empty_body f d b \<noteq> Value (FatalError SE_UnknownCommand)" for b and f :: server_command
    by (auto simp: msg_decode_def msg_try_from_def err_decode_def info_decode_def empty_body_def
        split: list.splits option.splits sum.splits if_splits run.splits)
  moreover have "hmsg_try_from d v \<noteq> Inl SE_UnknownCommand" for v
    by (auto simp: hmsg_try_from_def split: option.splits sum.splits if_splits)
  then have "hmsg_decode d b \<noteq> Value (FatalError SE_UnknownCommand)" for b
    by (auto simp: hmsg_decode_def split: list.splits option.splits if_splits)
      (auto split: sum.splits)
  ultimately show ?thesis
    by (simp add: server_table_def ping_server_decode_def pong_server_decode_def ok_decode_def)
qed

subsection \<open>Messages with and without headers\<close>

definition msg_wire :: "msg \<Rightarrow> buf" where
  "msg_wire m = ''MSG '' @ msg_frame m"

definition hmsg_wire :: "hmsg \<Rightarrow> (header_name \<times> header_value) list \<Rightarrow> buf" where
  "hmsg_wire h kvs = ''HMSG '' @ hmsg_frame h kvs"

lemma server_table_mem:
  "(''PING'', ping_server_decode) \<in> set server_table" "(''PONG'', pong_server_decode) \<in> set server_table"
  "(''HMSG '', hmsg_decode) \<in> set server_table" "(''MSG '', msg_decode) \<in> set server_table"
  "(''+OK'', ok_decode) \<in> set server_table" "(''-ERR '', err_decode) \<in> set server_table"
  "(''INFO '', info_decode) \<in> set server_table"
  by (simp_all add: server_table_def)

lemma no_crlf_command_server:
  "no_crlf (''HMSG '' @ s) = no_crlf s" "no_crlf (''MSG '' @ s) = no_crlf s"
  "no_crlf (''INFO '' @ s) = no_crlf s" "no_crlf (''-ERR '' @ s) = no_crlf s"
  "no_crlf (''PING'' @ s) = no_crlf s" "no_crlf (''PONG'' @ s) = no_crlf s"
  "no_crlf (''+OK'' @ s) = no_crlf s"
  by (rule no_crlf_prefix, simp add: CR_def, simp add: LF_def)+

lemma msg_meta_no_crlf: "wf_msg m \<Longrightarrow> no_crlf (msg_meta m)"
  unfolding msg_meta_def wf_msg_def
  by (intro no_crlf_join) (cases "msg_reply_to m"; auto intro: tokenD)

lemma server_msg_wire:
  assumes "memchr_ok d" "bytes_ok d" "wf_msg m" "length (msg_meta m) + 6 \<le> BUFSIZE_LIMIT"
  shows "server_decode d (msg_wire m @ rest) = Value (Inr (Some (S_Msg m)), rest)"
proof -
  have "line_in_reach (''MSG '' @ msg_frame m @ rest)"
    using command_line_in_reach [of "''MSG ''" "msg_meta m"] msg_meta_no_crlf [OF assms(3)] assms(4)
    by (simp only: no_crlf_command_server msg_frame_def append_assoc) simp
  from server_dispatch [OF assms(1,2) server_table_mem(4) eq_ignore_ascii_case_refl this]
  show ?thesis by (simp add: msg_wire_def body_step_def msg_decode_frame_lemma [OF assms(1,3)])
qed

lemma server_hmsg_cut_wire:
  assumes d: "memchr_ok d" "bytes_ok d" and wf: "wf_hmsg h kvs"
    and l: "length (hmsg_meta h) + 7 \<le> BUFSIZE_LIMIT" and k: "k \<le> length (hmsg_wire h kvs)"
  shows "server_decode d (take k (hmsg_wire h kvs)) =
    (if k < length (hmsg_meta h) + 7 \<or> k < unat (hmsg_total_bytes h) + 5
     then Value (Inr None, take k (hmsg_wire h kvs))
     else if k < length (hmsg_wire h kvs) then Panic
     else Value (Inr (Some (S_HMsg h)), []))"
proof (cases "k < length (hmsg_meta h) + 7")
  case True
  have "no_crlf (''HMSG '' @ hmsg_meta h)"
    unfolding no_crlf_command_server by (rule hmsg_meta_no_crlf [OF wf])
  from no_crlf_cut_line [OF this, of k] True
  have n: "no_crlf (take k (hmsg_wire h kvs))" by (simp add: hmsg_wire_def hmsg_frame_def)
  define s where "s = take k (hmsg_wire h kvs)"
  have "length s < BUFSIZE_LIMIT" using True l by (simp add: s_def)
  then have "server_decode d s = Value (Inr None, s)"
    using server.decoding_no_line [OF d(1), of s] n [folded s_def] by (simp add: server_decode_def)
  then show ?thesis using True by (simp add: s_def)
next
  case False
  define b where "b = take (k - 5) (hmsg_frame h kvs)"
  have b: "take k (hmsg_wire h kvs) = ''HMSG '' @ b"
    using False by (simp add: hmsg_wire_def b_def take_Cons' eval_nat_numeral)
  have k': "k - 5 \<le> length (hmsg_frame h kvs)" using k by (simp add: hmsg_wire_def)
  have "b = hmsg_meta h @ CRLF @ take (k - 7 - length (hmsg_meta h))
      (header_block kvs @ hmsg_payload h @ CRLF)"
    using False by (simp add: b_def hmsg_frame_def)
  then have "line_in_reach (''HMSG '' @ b)"
    using command_line_in_reach [of "''HMSG ''" "hmsg_meta h"] hmsg_meta_no_crlf [OF wf] l
    by (simp only: no_crlf_command_server) simp
  note step = server_dispatch [OF d server_table_mem(3) eq_ignore_ascii_case_refl this]
  have T: "unat (hmsg_total_bytes h) = length (header_block kvs) + length (hmsg_payload h)"
    using wf by (simp add: wf_hmsg_def)
  have lb: "length b = k - 5" using k' by (simp add: b_def)
  have full: "length (hmsg_wire h kvs) = length (hmsg_frame h kvs) + 5" by (simp add: hmsg_wire_def)
  have lf: "length (hmsg_frame h kvs) = length (hmsg_meta h) + 4 + unat (hmsg_total_bytes h)"
    by (simp add: hmsg_frame_def T)
  show ?thesis
    unfolding b step body_step_def
      hmsg_decode_cut_lemma [OF d(1) wf k', folded b_def]
    using k False lb lf full by auto
qed

lemma server_hmsg_wire:
  assumes "memchr_ok d" "bytes_ok d" "wf_hmsg h kvs" "length (hmsg_meta h) + 7 \<le> BUFSIZE_LIMIT"
  shows "server_decode d (hmsg_wire h kvs @ rest) = Value (Inr (Some (S_HMsg h)), rest)"
proof -
  have T: "unat (hmsg_total_bytes h) = length (header_block kvs) + length (hmsg_payload h)"
    using assms(3) by (simp add: wf_hmsg_def)
  have "server_decode d (hmsg_wire h kvs) = Value (Inr (Some (S_HMsg h)), [])"
    using server_hmsg_cut_wire [OF assms, of "length (hmsg_wire h kvs)"] T
    by (simp add: hmsg_wire_def hmsg_frame_def)
  from server_dec.final_grow [OF assms(1,2) this, of rest] show ?thesis by simp
qed

subsection \<open>What a server writes\<close>

text \<open>
  The wire form of a server's commands, with the text of an \<open>INFO\<close> and the order of the headers
  chosen by the server, and the commands it can carry.
\<close>

fun server_wire :: "(info \<Rightarrow> buf) \<Rightarrow> crates \<Rightarrow> server_command \<Rightarrow> buf" where
  "server_wire js d (S_Info i) = ''INFO '' @ js i @ CRLF"
| "server_wire js d (S_Msg m) = msg_wire m"
| "server_wire js d (S_HMsg h) = hmsg_wire h (flatten_headers (hash_iter d (hmsg_headers h)))"
| "server_wire js d S_Ping = ''PING'' @ CRLF"
| "server_wire js d S_Pong = ''PONG'' @ CRLF"
| "server_wire js d S_Ok = ''+OK'' @ CRLF"
| "server_wire js d (S_Err e) = ''-ERR '' @ (CHR 0x27 # e @ [CHR 0x27]) @ CRLF"

fun wf_server :: "(info \<Rightarrow> buf) \<Rightarrow> crates \<Rightarrow> server_command \<Rightarrow> bool" where
  "wf_server js d (S_Info i) \<longleftrightarrow> json_info d (js i) = Some i \<and> no_crlf (js i) \<and>
     length (js i) + 7 \<le> BUFSIZE_LIMIT"
| "wf_server js d (S_Msg m) \<longleftrightarrow> wf_msg m \<and> length (msg_meta m) + 6 \<le> BUFSIZE_LIMIT"
| "wf_server js d (S_HMsg h) \<longleftrightarrow> wf_hmsg h (flatten_headers (hash_iter d (hmsg_headers h))) \<and>
     length (hmsg_meta h) + 7 \<le> BUFSIZE_LIMIT"
| "wf_server js d (S_Err e) \<longleftrightarrow> utf8_valid e \<and> no_crlf (CHR 0x27 # e @ [CHR 0x27]) \<and>
     length e + 9 \<le> BUFSIZE_LIMIT"
| "wf_server js d _ \<longleftrightarrow> True"

lemma server_line:
  assumes "memchr_ok d" "bytes_ok d" "(p, dec) \<in> set server_table" "no_crlf (p @ l)"
    and "length p + length l + 2 \<le> BUFSIZE_LIMIT"
    and "dec d (l @ CRLF @ rest) = Value (Advance c (length l + 2))"
  shows "server_decode d (p @ l @ CRLF @ rest) = Value (Inr (Some c), rest)"
proof -
  have "line_in_reach (p @ l @ CRLF @ rest)"
    using command_line_in_reach [OF assms(4), of rest] assms(5) by simp
  from server_dispatch [OF assms(1-3) eq_ignore_ascii_case_refl this] assms(6)
  show ?thesis by (simp add: body_step_def)
qed

lemma err_decode_wire:
  assumes "memchr_ok d" "utf8_valid e" "no_crlf (CHR 0x27 # e @ [CHR 0x27])"
  shows "err_decode d ((CHR 0x27 # e @ [CHR 0x27]) @ CRLF @ rest) =
    Value (Advance (S_Err e) (length (CHR 0x27 # e @ [CHR 0x27]) + 2))"
  using line_body_Cons [OF err_decode_line slice_spliterator_first [OF assms(1,3), of rest]] assms(2)
  by (simp add: err_line_def)

lemma empty_body_reads:
  "memchr_ok d \<Longrightarrow> empty_body f d (([] :: buf) @ CRLF @ rest) = Value (Advance f (length ([] :: buf) + 2))"
  using slice_spliterator_first [of d "[]" rest] by (simp add: empty_body_def)

lemma server_round_trip_lemma:
  assumes "memchr_ok d" "bytes_ok d" "wf_server js d c"
  shows "server_decode d (server_wire js d c @ rest) = Value (Inr (Some c), rest)"
proof (cases c)
  case (S_Info i)
  then have "no_crlf (''INFO '' @ js i)" using assms(3) by (simp only: no_crlf_command_server) simp
  from server_line [OF assms(1,2) server_table_mem(7) this, where rest = rest and c = c] assms S_Info
    slice_spliterator_first [OF assms(1), of "js i" rest]
  show ?thesis by (simp add: info_decode_def)
next
  case (S_Err e)
  let ?l = "CHR 0x27 # e @ [CHR 0x27]"
  have "no_crlf (''-ERR '' @ ?l)" using assms(3) S_Err by (simp only: no_crlf_command_server) simp
  from server_line [OF assms(1,2) server_table_mem(6) this _ err_decode_wire] assms S_Err
  show ?thesis by simp
next
  case S_Ping
  with server_line [OF assms(1,2) server_table_mem(1), of "[]" rest c] empty_body_reads [OF assms(1), of c rest]
  show ?thesis by (simp add: ping_server_decode_def no_crlf_if_no_CR CR_def BUFSIZE_LIMIT_def)
next
  case S_Pong
  with server_line [OF assms(1,2) server_table_mem(2), of "[]" rest c] empty_body_reads [OF assms(1), of c rest]
  show ?thesis by (simp add: pong_server_decode_def no_crlf_if_no_CR CR_def BUFSIZE_LIMIT_def)
next
  case S_Ok
  with server_line [OF assms(1,2) server_table_mem(5), of "[]" rest c] empty_body_reads [OF assms(1), of c rest]
  show ?thesis by (simp add: ok_decode_def no_crlf_if_no_CR CR_def BUFSIZE_LIMIT_def)
qed (use assms in \<open>simp_all add: server_msg_wire server_hmsg_wire\<close>)

subsection \<open>Wire forms that have arrived in part\<close>

text \<open>The server's decoder panics in \<open>HMSG\<close> only.\<close>

lemma server_panic_hmsg:
  assumes "memchr_ok d" "bytes_ok d" "server_decode d src = Panic"
  shows "eq_ignore_ascii_case (take 5 src) ''HMSG ''"
proof -
  obtain p dec where p: "(p, dec) \<in> set server_table"
    "eq_ignore_ascii_case (take (length p) src) p" "\<not> safe_decoder dec"
    using decoding_panic [OF assms(1,2)] assms(3) unfolding server_decode_def by blast
  then have "p = ''HMSG ''"
    using server_table_cases [OF p(1)] ping_server.safe_decoder_axioms pong_server.safe_decoder_axioms
      msg_dec.safe_decoder_axioms ok_dec.safe_decoder_axioms err_dec.safe_decoder_axioms
      info_dec.safe_decoder_axioms
    by (elim disjE) simp_all
  with p(2) show ?thesis by (simp add: eval_nat_numeral)
qed

text \<open>
  The prefixes of a wire form on which the decoder panics: of an \<open>HMSG\<close> those that hold the
  metadata line and \<open>total_bytes\<close> bytes behind the command name, and of no other command any.
\<close>

fun server_fatal :: "server_command \<Rightarrow> nat \<Rightarrow> bool" where
  "server_fatal (S_HMsg h) k \<longleftrightarrow> length (hmsg_meta h) + 7 \<le> k \<and> unat (hmsg_total_bytes h) + 5 \<le> k"
| "server_fatal _ k \<longleftrightarrow> False"

lemma server_fatalD:
  "server_fatal c k \<Longrightarrow> \<exists>h. c = S_HMsg h \<and> length (hmsg_meta h) + 7 \<le> k \<and> unat (hmsg_total_bytes h) + 5 \<le> k"
  by (cases c) auto

lemma server_wire_head:
  assumes "\<forall>h. c \<noteq> S_HMsg h"
  shows "\<exists>b w. server_wire js d c = b # w \<and> lower_val b \<noteq> lower_val (CHR ''H'')"
  using assms by (cases c) (simp_all add: msg_wire_def lower_val_def byte_val_def)

lemma server_cut:
  assumes d: "memchr_ok d" "bytes_ok d" and wf: "wf_server js d c" and k: "k < length (server_wire js d c)"
  shows "server_decode d (take k (server_wire js d c)) =
    (if server_fatal c k then Panic else Value (Inr None, take k (server_wire js d c)))"
proof (cases "\<exists>h. c = S_HMsg h")
  case True
  then obtain h where c: "c = S_HMsg h" by blast
  with wf k show ?thesis
    using server_hmsg_cut_wire [OF d, of h "flatten_headers (hash_iter d (hmsg_headers h))" k] by auto
next
  case False
  then obtain b w where "server_wire js d c = b # w" "lower_val b \<noteq> lower_val (CHR ''H'')"
    using server_wire_head by blast
  then have "server_decode d (take k (server_wire js d c)) \<noteq> Panic"
    using server_panic_hmsg [OF d] other_command [of _ b w "CHR ''H''" 4 k] by fastforce
  moreover have "\<not> server_fatal c k" using False by (cases c) auto
  ultimately show ?thesis
    using server_dec.cut_waits [OF d _ k] server_round_trip_lemma [OF d wf, of "[]"] by simp
qed

interpretation server_codec: frame_codec server_decode "server_wire js" "wf_server js" server_fatal for js
  by unfold_locales (fact server_round_trip_lemma server_cut)+

subsection \<open>Properties\<close>

text \<open>A message and one with a header, for the witnesses.\<close>

definition sample_msg :: msg where
  "sample_msg = \<lparr>msg_subject = ''a.b'', msg_sid = ''9'', msg_reply_to = Some ''r'', msg_bytes = 3,
     msg_payload = ''xyz''\<rparr>"

lemma sample_msg_wf: "wf_msg sample_msg"
  by (simp add: sample_msg_def wf_msg_def token_def utf8_valid_ascii no_crlf_def CR_def byte_val_def)

lemma sample_msg_meta: "length (msg_meta sample_msg) + 6 \<le> BUFSIZE_LIMIT"
  by (simp add: sample_msg_def msg_meta_def show_usize_def show_nat.simps BUFSIZE_LIMIT_def)

lemma sample_msg_decode:
  "server_decode ref_deps (msg_wire sample_msg @ rest) = Value (Inr (Some (S_Msg sample_msg)), rest)"
  by (rule server_msg_wire) (simp_all add: sample_msg_wf sample_msg_meta)

definition sample_hmsg :: hmsg where
  "sample_hmsg = \<lparr>hmsg_subject = ''s'', hmsg_sid = ''1'', hmsg_reply_to = None,
     hmsg_header_bytes = 18, hmsg_total_bytes = 20,
     hmsg_headers = [''K'' \<mapsto> [''v'']], hmsg_payload = ''hi''\<rparr>"

lemma server_decode_nil: "memchr_ok d \<Longrightarrow> server_decode d [] = Value (Inr None, [])"
  using server.decoding_no_line [of d "[]"] by (simp add: server_decode_def no_crlf_def BUFSIZE_LIMIT_def)

lemma sample_hmsg_wf: "wf_hmsg sample_hmsg [(''K'', ''v'')]"
  by (simp add: sample_hmsg_def wf_hmsg_def token_def plain_header_def header_block_def
      header_line_def NATS_VERSION_def push_header_def utf8_valid_ascii no_crlf_def CR_def byte_val_def)

lemma sample_hmsg_sizes:
  "length (hmsg_meta sample_hmsg) = 9" "length (hmsg_wire sample_hmsg [(''K'', ''v'')]) = 38"
  "unat (hmsg_total_bytes sample_hmsg) = 20" "16 \<le> BUFSIZE_LIMIT"
  by (simp_all add: sample_hmsg_def hmsg_meta_def hmsg_wire_def hmsg_frame_def header_block_def
      header_line_def NATS_VERSION_def show_usize_def show_nat.simps BUFSIZE_LIMIT_def)

text \<open>C2: What a server writes the client reads, and exactly where the reader dies: for any list of
  server commands, of every kind, whose fields fit the wire (with the \<open>INFO\<close> text any that serde_json
  reads as that \<open>INFO\<close>, and the headers in any order the map iterates), the bytes decode to that list
  with nothing left over. A reader that decodes after every read has, however the bytes were cut, the
  whole list and an empty buffer, unless one of its reads ended inside an \<open>HMSG\<close> with the metadata
  line and \<open>total_bytes\<close> bytes there but the frame not complete; then it panics at the first such
  read, with the commands before that \<open>HMSG\<close> decoded.\<close>

theorem server_stream_round_trip:
  assumes "memchr_ok d" "bytes_ok d" "\<forall>c \<in> set cs. wf_server js d c"
    and "concat chunks = concat (map (server_wire js d) cs)"
  shows "frames (server_decode d) (concat (map (server_wire js d) cs)) cs [] \<and>
    framed_read (server_decode d) [] chunks = Some
      (case find (fatal_cut server_fatal (server_wire js d) cs) (read_ends 0 chunks) of
         None \<Rightarrow> (cs, Waits [])
       | Some n \<Rightarrow> (completed (server_wire js d) cs n, Panics)) \<and>
    (\<forall>fs. framed_read (server_decode d) [] chunks = Some (fs, Panics) \<longrightarrow>
      (\<exists>h cs2 k. cs = fs @ S_HMsg h # cs2 \<and>
        length (hmsg_meta h) + 7 \<le> k \<and> unat (hmsg_total_bytes h) + 5 \<le> k \<and>
        k < length (server_wire js d (S_HMsg h)) \<and>
        length (concat (map (server_wire js d) fs)) + k \<in> set (read_ends 0 chunks)))"
proof -
  have "\<exists>h cs2 k. cs = fs @ S_HMsg h # cs2 \<and>
      length (hmsg_meta h) + 7 \<le> k \<and> unat (hmsg_total_bytes h) + 5 \<le> k \<and>
      k < length (server_wire js d (S_HMsg h)) \<and>
      length (concat (map (server_wire js d) fs)) + k \<in> set (read_ends 0 chunks)"
    if "framed_read (server_decode d) [] chunks = Some (fs, Panics)" for fs
    using server_codec.framed_read_panics [OF assms that] server_fatalD by blast
  then show ?thesis
    using server_codec.frames_stream [OF assms(1-3), of "[]"] server_codec.framed_read_stream [OF assms]
    by (simp add: read_result_def)
qed

definition hmsg_deps :: crates where
  "hmsg_deps = ref_crates [(''K'', [''v''])] ref_connect_json ref_connect ''{}'' ref_info"

lemma hmsg_deps_wire:
  "server_wire js hmsg_deps (S_HMsg sample_hmsg) = hmsg_wire sample_hmsg [(''K'', ''v'')]"
  by (simp add: hmsg_deps_def ref_crates_def flatten_headers_def)

lemma hmsg_deps_wf:
  "\<forall>c \<in> set [S_Msg sample_msg, S_HMsg sample_hmsg, S_Ok]. wf_server js hmsg_deps c"
  using sample_hmsg_wf sample_hmsg_sizes sample_msg_wf sample_msg_meta
  by (simp add: hmsg_deps_def ref_crates_def flatten_headers_def)

theorem server_stream_round_trip_witness:
  "framed_read (server_decode hmsg_deps) []
     [msg_wire sample_msg @ hmsg_wire sample_hmsg [(''K'', ''v'')], ''+OK'' @ CRLF] =
     Some ([S_Msg sample_msg, S_HMsg sample_hmsg, S_Ok], Waits []) \<and>
   framed_read (server_decode hmsg_deps) []
     [msg_wire sample_msg @ take 30 (hmsg_wire sample_hmsg [(''K'', ''v'')]),
      drop 30 (hmsg_wire sample_hmsg [(''K'', ''v'')]) @ ''+OK'' @ CRLF] =
     Some ([S_Msg sample_msg], Panics)"
proof -
  let ?h = "hmsg_wire sample_hmsg [(''K'', ''v'')]"
  let ?cs = "[S_Msg sample_msg, S_HMsg sample_hmsg, S_Ok]"
  let ?js = "\<lambda>_ :: info. []" and ?ok = "''+OK'' @ CRLF"
  have d: "memchr_ok hmsg_deps" "bytes_ok hmsg_deps" by (simp_all add: hmsg_deps_def)
  have w: "length ?h = 38" by (simp add: sample_hmsg_sizes)
  note t = server_stream_round_trip [OF d hmsg_deps_wf, of _ ?js, THEN conjunct2, THEN conjunct1]
  have "framed_read (server_decode hmsg_deps) [] [msg_wire sample_msg @ ?h, ?ok] =
      Some (?cs, Waits [])"
    by (subst t) (simp_all add: hmsg_deps_wire w del: server_wire.simps(3))
  moreover have "framed_read (server_decode hmsg_deps) [] [msg_wire sample_msg @ take 30 ?h, drop 30 ?h @ ?ok] =
      Some ([S_Msg sample_msg], Panics)"
    by (subst t) (simp_all add: hmsg_deps_wire w sample_hmsg_sizes del: server_wire.simps(3))
  ultimately show ?thesis by blast
qed

text \<open>C6: Every way an \<open>HMSG\<close> frame can be cut by the network. While the metadata line or
  \<open>total_bytes\<close> bytes of the body are missing the decoder waits and keeps the buffer; from there
  on, since the length check leaves out the metadata line and the final CR LF, every further
  incomplete prefix makes it panic; only the complete frame is decoded.\<close>

theorem server_hmsg_every_cut:
  assumes "memchr_ok d" "bytes_ok d" "wf_hmsg h kvs"
    and "length (hmsg_meta h) + 7 \<le> BUFSIZE_LIMIT" "k \<le> length (hmsg_wire h kvs)"
  shows "server_decode d (take k (hmsg_wire h kvs)) =
    (if k < length (hmsg_meta h) + 7 \<or> k < unat (hmsg_total_bytes h) + 5
     then Value (Inr None, take k (hmsg_wire h kvs))
     else if k < length (hmsg_wire h kvs) then Panic
     else Value (Inr (Some (S_HMsg h)), []))"
  by (rule server_hmsg_cut_wire [OF assms])

theorem server_hmsg_every_cut_witness:
  "server_decode ref_deps (take 30 (hmsg_wire sample_hmsg [(''K'', ''v'')])) = Panic \<and>
   server_decode ref_deps (take 38 (hmsg_wire sample_hmsg [(''K'', ''v'')])) =
     Value (Inr (Some (S_HMsg sample_hmsg)), [])"
  using server_hmsg_every_cut [of ref_deps sample_hmsg "[(''K'', ''v'')]" 30]
    server_hmsg_every_cut [of ref_deps sample_hmsg "[(''K'', ''v'')]" 38]
  by (simp add: sample_hmsg_wf sample_hmsg_sizes)

text \<open>C12: Whatever the server's decoder returns as a message was on the wire: the bytes it consumed
  are the command name in some case, the message's subject, sid and reply subject separated by
  single spaces, a decimal number that is its byte count, CR LF, as many payload bytes as that
  number says, and CR LF.\<close>

theorem server_msg_was_sent:
  assumes "memchr_ok d" "bytes_ok d" "server_decode d src = Value (Inr (Some (S_Msg m)), rest)"
  shows "\<exists>name digits. eq_ignore_ascii_case name ''MSG '' \<and> parse_usize digits = Some (msg_bytes m) \<and>
    length (msg_payload m) = unat (msg_bytes m) \<and>
    src = name @ join_fields ([msg_subject m, msg_sid m] @
      (case msg_reply_to m of None \<Rightarrow> [] | Some r \<Rightarrow> [r]) @ [digits]) @ CRLF @ msg_payload m @ CRLF @ rest"
proof -
  obtain p dec n where t: "(p, dec) \<in> set server_table" "length p \<le> length src"
    "eq_ignore_ascii_case (take (length p) src) p"
    "dec d (drop (length p) src) = Value (Advance (S_Msg m) n)"
    "rest = drop (n + length p) src"
    using server_frameE [OF assms(2,3)] by metis
  then have p: "p = ''MSG ''" "dec = msg_decode"
    using server_table_msg [OF t(1,4)] by simp_all
  then have l: "length p = 4" by simp
  have "src = take 4 src @ take n (drop 4 src) @ rest"
    unfolding t(5) l by (simp add: drop_drop [symmetric] del: drop_drop)
  with msg_decode_sound_lemma [OF assms(1) t(4) [unfolded p(2) l]] t(3) p(1) show ?thesis
    unfolding l by (metis append_assoc)
qed

theorem server_msg_was_sent_witness:
  "\<exists>name digits. eq_ignore_ascii_case name ''MSG '' \<and> parse_usize digits = Some 3 \<and>
     msg_wire sample_msg @ ''+OK'' = name @ join_fields [''a.b'', ''9'', ''r'', digits] @ CRLF @ ''xyz'' @ CRLF @ ''+OK''"
  using server_msg_was_sent [OF _ _ sample_msg_decode [of "''+OK''"]] by (simp add: sample_msg_def)

text \<open>C13: Whatever the server's decoder returns as a message with headers was on the wire: the bytes it
  consumed are the command name in some case, the subject, sid and reply subject, two decimal numbers
  that are its byte counts, CR LF, a header block of exactly the first count made of the version line,
  one line per header and the empty line, the payload that fills the second count, and two more bytes.
  The headers are the parsed lines with the values of each name in the order of the lines. The two
  bytes need not be CR LF: the decoder skips them without looking.\<close>

theorem server_hmsg_was_sent:
  assumes "memchr_ok d" "bytes_ok d" "server_decode d src = Value (Inr (Some (S_HMsg h)), rest)"
  shows "\<exists>name hb tb ls kvs skipped. eq_ignore_ascii_case name ''HMSG '' \<and>
    parse_usize hb = Some (hmsg_header_bytes h) \<and> parse_usize tb = Some (hmsg_total_bytes h) \<and>
    (let block = concat (map (\<lambda>l. l @ CRLF) (NATS_VERSION # ls @ [[]])) in
      length block = unat (hmsg_header_bytes h) \<and>
      length block + length (hmsg_payload h) = unat (hmsg_total_bytes h) \<and>
      src = name @ join_fields ([hmsg_subject h, hmsg_sid h] @
        (case hmsg_reply_to h of None \<Rightarrow> [] | Some r \<Rightarrow> [r]) @ [hb, tb]) @ CRLF @ block @
        hmsg_payload h @ skipped @ rest) \<and>
    length skipped = 2 \<and> map (parse_header d) ls = map Inr kvs \<and>
    hmsg_headers h = fold (\<lambda>(k, v) m. push_header m k v) kvs Map.empty"
proof -
  obtain p dec n where t: "(p, dec) \<in> set server_table" "length p \<le> length src"
    "eq_ignore_ascii_case (take (length p) src) p"
    "dec d (drop (length p) src) = Value (Advance (S_HMsg h) n)"
    "n + length p \<le> length src" "rest = drop (n + length p) src"
    using server_frameE [OF assms(2,3)] by metis
  then have p: "p = ''HMSG ''" "dec = hmsg_decode"
    using server_table_hmsg [OF t(1,4)] by simp_all
  let ?b = "drop (length p) src"
  from hmsg_decode_sound [OF assms(1) t(4) [unfolded p(2)]] obtain hb tb block where
    u: "parse_usize hb = Some (hmsg_header_bytes h)" "parse_usize tb = Some (hmsg_total_bytes h)"
      "hmsg_header_bytes h \<le> hmsg_total_bytes h" "length block = unat (hmsg_header_bytes h)"
      "length (hmsg_payload h) = unat (hmsg_total_bytes h - hmsg_header_bytes h)"
      "parse_headers d block (length block) = Inr (hmsg_headers h)" "2 \<le> n"
    and b: "?b = join_fields ([hmsg_subject h, hmsg_sid h] @
        (case hmsg_reply_to h of None \<Rightarrow> [] | Some r \<Rightarrow> [r]) @ [hb, tb]) @ CRLF @ block @
        hmsg_payload h @ drop (n - 2) ?b" by blast
  from parse_headers_sound [OF assms(1) u(6)] obtain ls kvs where
    l: "block = concat (map (\<lambda>l. l @ CRLF) (NATS_VERSION # ls @ [[]]))"
      "map (parse_header d) ls = map Inr kvs" "hmsg_headers h = fold (\<lambda>(k, v) m. push_header m k v) kvs Map.empty"
    by auto
  have "2 + (n - 2 + length p) = n + length p" using u(7) by simp
  then have "drop 2 (drop (n - 2) ?b) = rest" unfolding t(6) drop_drop by (simp only:)
  then have r: "drop (n - 2) ?b = take 2 (drop (n - 2) ?b) @ rest" by (metis append_take_drop_id)
  have s: "length (take 2 (drop (n - 2) ?b)) = 2" using u(7) t(5) by simp
  have tot: "length block + length (hmsg_payload h) = unat (hmsg_total_bytes h)"
    using u(3-5) by (simp add: unat_sub word_le_nat_alt)
  have "src = take (length p) src @ ?b" by simp
  then have "src = take (length p) src @ join_fields ([hmsg_subject h, hmsg_sid h] @
        (case hmsg_reply_to h of None \<Rightarrow> [] | Some r \<Rightarrow> [r]) @ [hb, tb]) @ CRLF @ block @
        hmsg_payload h @ take 2 (drop (n - 2) ?b) @ rest"
    using b r by (metis append_assoc)
  with t(3) p(1) u(1,2,4) tot s l show ?thesis
    unfolding Let_def by (intro exI [of _ "take (length p) src"] exI [of _ hb] exI [of _ tb] exI [of _ ls]
        exI [of _ kvs] exI [of _ "take 2 (drop (n - 2) ?b)"]) blast
qed

theorem server_hmsg_was_sent_witness:
  "\<exists>ls kvs. map (parse_header ref_deps) ls = map Inr kvs \<and>
     hmsg_headers sample_hmsg = fold (\<lambda>(k, v) m. push_header m k v) kvs Map.empty"
  using server_hmsg_was_sent [OF _ _ server_hmsg_wire [OF _ _ sample_hmsg_wf], of ref_deps "[]"] sample_hmsg_sizes
  by (auto simp: Let_def)

lemma server_frames_are_utf8:
  assumes "bytes_ok d" "json_strings_ok d" "server_decode d src = Value (Inr (Some c), rest)"
  shows "utf8_server c"
  using server_frameE [OF assms(1,3)] server_table_utf8 [OF assms(2)] by metis

text \<open>C8: What the cutting of a server's stream into reads can decide is whether the reader dies, and
  nothing else: of two readers of the same bytes, cut differently, that decode after every read, if
  neither panics both have the same frames and end alike, waiting with the same bytes in the buffer
  or refused with the same error. If one panics it had read into an \<open>HMSG\<close>, and its frames are the
  first frames of a reader that does not.\<close>

theorem server_cuts_decide_only_panics:
  assumes "memchr_ok d" "bytes_ok d" "concat chunks = concat chunks'"
    and "framed_read (server_decode d) [] chunks = Some (fs, out)"
    and "framed_read (server_decode d) [] chunks' = Some (fs', out')"
  shows "(out \<noteq> Panics \<longrightarrow> prefix fs' fs \<and> (out' \<noteq> Panics \<longrightarrow> fs = fs' \<and> same_end out out')) \<and>
    (out = Panics \<longrightarrow> (\<exists>s. frames (server_decode d) (concat chunks) fs s \<and>
      eq_ignore_ascii_case (take 5 s) ''HMSG ''))"
proof -
  have e: "ended (server_decode d) (concat chunks) fs out" "ended (server_decode d) (concat chunks) fs' out'"
    using server_dec.framed_read_start [OF assms(1,2,4)] server_dec.framed_read_start [OF assms(1,2,5)]
    by (simp_all add: assms(3))
  have "\<exists>s. frames (server_decode d) (concat chunks) fs s \<and> eq_ignore_ascii_case (take 5 s) ''HMSG ''"
    if p: "out = Panics"
  proof -
    obtain s rest where s: "frames (server_decode d) (concat chunks) fs (s @ rest)" "server_decode d s = Panic"
      using e(1) p by (auto simp: ended_def)
    from server_panic_hmsg [OF assms(1,2) s(2)] have h: "eq_ignore_ascii_case (take 5 s) ''HMSG ''" .
    then have "length (take 5 s) = length ''HMSG ''"
      unfolding eq_ignore_ascii_case_def by (rule map_eq_imp_length_eq)
    then have "take 5 (s @ rest) = take 5 s" by simp
    with s(1) h show ?thesis by metis
  qed
  with server_dec.ended_agree [OF assms(1,2) e(1) _ e(2)] show ?thesis by blast
qed

theorem server_cuts_decide_only_panics_witness:
  "\<exists>fs. framed_read (server_decode hmsg_deps) []
     [msg_wire sample_msg @ take 30 (hmsg_wire sample_hmsg [(''K'', ''v'')]),
      drop 30 (hmsg_wire sample_hmsg [(''K'', ''v'')]) @ ''+OK'' @ CRLF] = Some (fs, Panics) \<and>
     prefix fs [S_Msg sample_msg, S_HMsg sample_hmsg, S_Ok]"
proof -
  let ?h = "hmsg_wire sample_hmsg [(''K'', ''v'')]"
  let ?cs = "[S_Msg sample_msg, S_HMsg sample_hmsg, S_Ok]"
  let ?js = "\<lambda>_ :: info. []" and ?ok = "''+OK'' @ CRLF"
  have d: "memchr_ok hmsg_deps" "bytes_ok hmsg_deps" by (simp_all add: hmsg_deps_def)
  have w: "length ?h = 38" by (simp add: sample_hmsg_sizes)
  note t = server_codec.framed_read_stream [OF d hmsg_deps_wf, of _ ?js]
  have 1: "framed_read (server_decode hmsg_deps) [] [msg_wire sample_msg @ ?h, ?ok] =
      Some (?cs, Waits [])"
    by (subst t) (simp_all add: read_result_def hmsg_deps_wire w del: server_wire.simps(3))
  have 2: "framed_read (server_decode hmsg_deps) [] [msg_wire sample_msg @ take 30 ?h, drop 30 ?h @ ?ok] =
      Some ([S_Msg sample_msg], Panics)"
    by (subst t) (simp_all add: read_result_def hmsg_deps_wire w sample_hmsg_sizes del: server_wire.simps(3))
  from server_cuts_decide_only_panics [OF d _ 1 2] 2 show ?thesis by simp
qed

text \<open>C20: A final answer of the server's decoder is final: when a call returned a frame or an error,
  the same call on the buffer with more bytes behind it returns the same and leaves those bytes.\<close>

theorem server_answer_is_final:
  assumes "memchr_ok d" "bytes_ok d" "server_decode d src = Value (res, rest)" "res \<noteq> Inr None"
  shows "server_decode d (src @ extra) = Value (res, rest @ extra)"
  by (rule server_dec.final_grow [OF assms])

theorem server_answer_is_final_witness:
  "server_decode ref_deps ((msg_wire sample_msg @ []) @ ''PONG'') = Value (Inr (Some (S_Msg sample_msg)), [] @ ''PONG'')"
  by (rule server_answer_is_final [OF _ _ sample_msg_decode]) simp_all

text \<open>C33: \<open>PING\<close>, \<open>PONG\<close> and \<open>+OK\<close> lines with anything between the name and the CR LF are
  never decoded and never refused: the decoder answers that the frame is not complete, and does so
  for every continuation of the stream, so that nothing after such a line is ever read.\<close>

theorem server_arguments_stall_the_stream:
  assumes "memchr_ok d" "bytes_ok d" "name \<in> {''PING'', ''PONG'', ''+OK''}"
    and "no_crlf l" "l \<noteq> []" "length l + 6 \<le> BUFSIZE_LIMIT"
  shows "server_decode d (name @ l @ CRLF @ rest) = Value (Inr None, name @ l @ CRLF @ rest)"
proof -
  have nc: "no_crlf (name @ l)"
    using assms(3,4) by (elim insertE emptyE) (simp_all only: no_crlf_command_server)
  have "length name + length l + 2 \<le> BUFSIZE_LIMIT" using assms(3,6) by auto
  from command_line_in_reach [OF nc this] have r: "line_in_reach (name @ l @ CRLF @ rest)" .
  obtain f where t: "(name, empty_body f) \<in> set server_table"
    using assms(3) server_table_mem(1,2,5)
    unfolding ping_server_decode_def pong_server_decode_def ok_decode_def by blast
  show ?thesis
    using server.decoding_stuck [OF assms(1,2) clash_free_server t eq_ignore_ascii_case_refl r
        empty_body_stuck [OF assms(1,4,5)]]
    by (simp add: server_decode_def)
qed

theorem server_arguments_stall_the_stream_witness:
  "server_decode ref_deps (''PING'' @ '' '' @ CRLF @ ''+OK'' @ CRLF) =
     Value (Inr None, ''PING'' @ '' '' @ CRLF @ ''+OK'' @ CRLF)"
  by (rule server_arguments_stall_the_stream)
    (simp_all add: no_crlf_def BUFSIZE_LIMIT_def)

text \<open>C32: A fatal error of a body decoder does not drop its frame: every error but
  \<open>UnknownCommand\<close> leaves the buffer as it was, so the next call, with whatever has arrived in
  between, reports the same error again.\<close>

theorem server_errors_repeat:
  assumes "memchr_ok d" "bytes_ok d" "server_decode d src = Value (Inl e, rest)"
    and "e \<noteq> SE_UnknownCommand"
  shows "rest = src \<and> server_decode d (src @ extra) = Value (Inl e, src @ extra)"
  using server.decoding_fatal_keeps [OF assms(1,2), of src e rest extra] assms(3,4)
  by (simp add: server_decode_def server_common_errors_def)

theorem server_errors_repeat_witness:
  "server_decode ref_deps ((''-ERR '' @ CRLF) @ ''PING'' @ CRLF) =
     Value (Inl SE_BadErr, (''-ERR '' @ CRLF) @ ''PING'' @ CRLF)"
proof -
  have "err_decode ref_deps (CRLF @ []) = Value (FatalError SE_BadErr)"
    using line_body_Cons [OF err_decode_line slice_spliterator_first [of ref_deps "[]" "[]"]]
    by (simp add: err_line_def)
  moreover have "line_in_reach (''-ERR '' @ CRLF @ [])"
    by (simp add: line_in_reach_def BUFSIZE_LIMIT_def CRLF_def CR_def LF_def)
  ultimately have "server_decode ref_deps (''-ERR '' @ CRLF) = Value (Inl SE_BadErr, ''-ERR '' @ CRLF)"
    using server_dispatch [OF _ _ server_table_mem(6) eq_ignore_ascii_case_refl, of ref_deps "CRLF @ []"]
    by (simp add: body_step_def)
  from server_errors_repeat [OF _ _ this, of "''PING'' @ CRLF"] show ?thesis by simp
qed

text \<open>C15: After an unknown command the decoder is out of step for good. The skip ends after the
  CR, so the LF stays at the front of the buffer; no command begins with it, and every call from
  then on, whatever arrives, finds no frame and leaves a buffer that again begins with an LF.\<close>

theorem server_unknown_command_desynchronises:
  assumes "memchr_ok d" "bytes_ok d" "server_decode d src = Value (Inl SE_UnknownCommand, rest)"
  shows "\<exists>s. rest = LF # s \<and> (\<forall>t. \<exists>res t'. server_decode d (LF # t) = Value (res, LF # t') \<and>
    res \<in> {Inr None, Inl SE_ExceedsSoftLength, Inl SE_UnknownCommand})"
  using server.decoding_after_LF [OF assms(1,2) server_no_LF]
    server.decoding_unknown_LF [OF assms(1,2), of src rest] server_no_unknown [of d] assms(3)
  by (simp add: server_decode_def server_common_errors_def)

theorem server_unknown_command_desynchronises_witness:
  "\<exists>s. LF # s = LF # msg_wire sample_msg \<and>
    (\<forall>t. \<exists>res t'. server_decode ref_deps (LF # t) = Value (res, LF # t') \<and>
      res \<in> {Inr None, Inl SE_ExceedsSoftLength, Inl SE_UnknownCommand})"
proof -
  let ?src = "''HELLO'' @ CRLF @ msg_wire sample_msg"
  have "\<exists>b. break_crlf (take BUFSIZE_LIMIT ?src) = Some (''HELLO'', b)"
    by (simp add: BUFSIZE_LIMIT_def CRLF_def CR_def LF_def)
  then obtain b where b: "break_crlf (take BUFSIZE_LIMIT ?src) = Some (''HELLO'', b)" by blast
  have "server_decode ref_deps ?src = Value (Inl SE_UnknownCommand, LF # msg_wire sample_msg)"
    using server.decoding_unknown [OF _ _ b, of ref_deps]
    by (simp add: server_decode_def server_common_errors_def server_table_def CRLF_def
        eq_ignore_ascii_case_eval lower_val_def byte_val_def Let_def)
  from server_unknown_command_desynchronises [OF _ _ this] show ?thesis by simp
qed

text \<open>C35: The soft limit is 65535 bytes for the first line with its CR LF, and for that line only: a
  buffer whose first 65535 bytes hold no CR LF is waited for while it is shorter than that and refused
  from then on, and kept in both cases. A message, whatever follows it, is decoded exactly when its name,
  its metadata and the CR LF behind them fit in 65535 bytes, however long its payload is.\<close>

theorem server_soft_limit:
  assumes "memchr_ok d" "bytes_ok d"
  shows "(no_crlf (take 65535 src) \<longrightarrow> server_decode d src =
      Value (if length src < 65535 then Inr None else Inl SE_ExceedsSoftLength, src)) \<and>
    (wf_msg m \<longrightarrow> server_decode d (msg_wire m @ rest) =
      (if length ''MSG '' + length (msg_meta m) + length CRLF \<le> 65535
       then Value (Inr (Some (S_Msg m)), rest)
       else Value (Inl SE_ExceedsSoftLength, msg_wire m @ rest)))"
proof -
  have L: "BUFSIZE_LIMIT = 65535" by (simp add: BUFSIZE_LIMIT_def)
  have no_line: "server_decode d s = Value (if length s < 65535 then Inr None else Inl SE_ExceedsSoftLength, s)"
    if "no_crlf (take 65535 s)" for s
    using server.decoding_no_line [OF assms(1), of s] that
    by (simp add: server_decode_def server_common_errors_def L)
  have "server_decode d (msg_wire m @ rest) = Value (Inl SE_ExceedsSoftLength, msg_wire m @ rest)"
    if m: "wf_msg m" and l: "65535 < length (msg_meta m) + 6"
  proof -
    have "no_crlf (''MSG '' @ msg_meta m)"
      unfolding no_crlf_command_server by (rule msg_meta_no_crlf [OF m])
    from no_crlf_cut_line [OF this, of 65535] l have "no_crlf (take 65535 (msg_wire m @ rest))"
      by (simp add: msg_wire_def msg_frame_def)
    moreover have "\<not> length (msg_wire m @ rest) < 65535" using l by (simp add: msg_wire_def msg_frame_def)
    ultimately show ?thesis using no_line by simp
  qed
  with no_line server_msg_wire [OF assms, of m rest] show ?thesis by (auto simp: L not_le)
qed

text \<open>A message with a long subject, on either side of the limit.\<close>

definition long_msg :: "nat \<Rightarrow> msg" where
  "long_msg n = \<lparr>msg_subject = replicate n (CHR ''a''), msg_sid = ''1'', msg_reply_to = None, msg_bytes = 0,
     msg_payload = []\<rparr>"

lemma long_msg_wf: "0 < n \<Longrightarrow> wf_msg (long_msg n)"
proof -
  have "no_crlf (replicate n (CHR ''a''))" by (rule no_crlf_if_no_CR) (simp add: CR_def)
  then show "0 < n \<Longrightarrow> wf_msg (long_msg n)"
    by (auto simp: long_msg_def wf_msg_def token_def utf8_valid_ascii no_crlf_if_no_CR CR_def byte_val_def)
qed

lemma long_msg_meta: "length (msg_meta (long_msg n)) = n + 4"
  by (simp add: long_msg_def msg_meta_def show_usize_def show_nat.simps)

theorem server_soft_limit_witness:
  "server_decode ref_deps (msg_wire (long_msg 65525) @ []) = Value (Inr (Some (S_Msg (long_msg 65525))), []) \<and>
   server_decode ref_deps (msg_wire (long_msg 65526) @ []) =
     Value (Inl SE_ExceedsSoftLength, msg_wire (long_msg 65526) @ [])"
proof -
  have "server_decode ref_deps (msg_wire (long_msg n) @ []) =
      (if n + 10 \<le> 65535 then Value (Inr (Some (S_Msg (long_msg n))), [])
       else Value (Inl SE_ExceedsSoftLength, msg_wire (long_msg n) @ []))" if "0 < n" for n
    using server_soft_limit [of ref_deps _ "long_msg n" "[]"] long_msg_wf [OF that]
    by (simp add: long_msg_meta del: append_Nil2)
  then show ?thesis by simp
qed

text \<open>C27: The server's decoder panics on \<open>HMSG\<close> lines only: whatever the buffer holds, when its
  first five bytes are not \<open>HMSG\<close> and a space, in some case, the call returns.\<close>

theorem server_panics_only_in_hmsg:
  assumes "memchr_ok d" "bytes_ok d" "server_decode d src = Panic"
  shows "eq_ignore_ascii_case (take 5 src) ''HMSG ''"
  by (rule server_panic_hmsg [OF assms])

theorem server_panics_only_in_hmsg_witness:
  "eq_ignore_ascii_case (take 5 (take 30 (hmsg_wire sample_hmsg [(''K'', ''v'')]))) ''HMSG ''"
proof (rule server_panics_only_in_hmsg [of ref_deps])
  show "server_decode ref_deps (take 30 (hmsg_wire sample_hmsg [(''K'', ''v'')])) = Panic"
    by (subst server_hmsg_cut_wire) (simp_all add: sample_hmsg_wf sample_hmsg_sizes)
qed simp_all

text \<open>C36: A payload is found by its CR LF and then measured: a message whose payload contains a
  CR LF, which the protocol allows since it is preceded by its length, is refused with
  \<open>BadMsg\<close>.\<close>

theorem server_refuses_crlf_in_payload:
  assumes "memchr_ok d" "bytes_ok d" "token (msg_subject m)" "token (msg_sid m)"
    and "token_opt (msg_reply_to m)" "unat (msg_bytes m) = length (msg_payload m)"
    and "msg_payload m = a @ CRLF @ b" "no_crlf a" "length (msg_meta m) + 6 \<le> BUFSIZE_LIMIT"
  shows "server_decode d (msg_wire m @ rest) = Value (Inl SE_BadMsg, msg_wire m @ rest)"
proof -
  define w where "w = b @ CRLF @ rest"
  have meta: "no_crlf (msg_meta m)"
    using assms(3-5) unfolding msg_meta_def by (intro no_crlf_join) (cases "msg_reply_to m"; auto intro: tokenD)
  have frame: "msg_frame m @ rest = msg_meta m @ CRLF @ a @ CRLF @ w"
    by (simp add: msg_frame_def assms(7) w_def)
  obtain it where it: "slice_spliterator d (msg_meta m @ CRLF @ a @ CRLF @ w) CRLF =
      (msg_meta m, length (msg_meta m) + 2) # (a, length (msg_meta m) + length a + 4) # it"
    using slice_spliterator_two [OF assms(1) meta assms(8), of w] by auto
  have "msg_fields d (msg_meta m) a = Some
    \<lparr>mp_subject = msg_subject m, mp_sid = msg_sid m, mp_reply_to = msg_reply_to m,
     mp_bytes = show_usize (msg_bytes m), mp_payload = a\<rparr>"
    using assms(3-5) by (cases "msg_reply_to m")
      (auto simp: msg_fields_def msg_meta_def char_spliterator_eq [OF assms(1)] fields_eval
        eval_nat_numeral)
  then have body: "msg_decode d (msg_frame m @ rest) = Value (FatalError SE_BadMsg)"
    using assms(3-7) unfolding msg_decode_def frame it
    by (simp add: msg_try_from_def token_def from_utf8_valid)
  have "line_in_reach (''MSG '' @ msg_frame m @ rest)"
    using command_line_in_reach [of "''MSG ''" "msg_meta m" "a @ CRLF @ w"] meta assms(9)
    by (simp only: no_crlf_command_server frame) simp
  from server_dispatch [OF assms(1,2) server_table_mem(4) eq_ignore_ascii_case_refl this] body
  show ?thesis by (simp add: msg_wire_def body_step_def)
qed

theorem server_refuses_crlf_in_payload_witness:
  "let m = \<lparr>msg_subject = ''s'', msg_sid = ''1'', msg_reply_to = None, msg_bytes = 3,
      msg_payload = ''x'' @ CRLF @ []\<rparr>
   in server_decode ref_deps (msg_wire m @ []) = Value (Inl SE_BadMsg, msg_wire m @ [])"
  unfolding Let_def
  by (rule server_refuses_crlf_in_payload [where a = "''x''" and b = "[]"])
    (simp_all add: token_def utf8_valid_ascii no_crlf_def CR_def byte_val_def msg_meta_def
      show_usize_def show_nat.simps BUFSIZE_LIMIT_def)

text \<open>C21: Command names are matched without regard to ASCII case, and the order of the table does
  not matter: a buffer whose first line begins with any casing of a command's name is handled by
  that command's body decoder and by no other, with the bytes after the name; the frame's length
  is dropped from the buffer, an error or an incomplete frame keeps it.\<close>

theorem server_name_selects_decoder:
  assumes "memchr_ok d" "bytes_ok d" "(p, dec) \<in> set server_table" "eq_ignore_ascii_case name p"
    and "line_in_reach (name @ body)"
  shows "server_decode d (name @ body) =
    run_bind (dec d body) (\<lambda>r. case r of
        Advance frame consume \<Rightarrow>
          (if consume \<le> length body then Value (Inr (Some frame), drop consume body) else Panic)
      | FatalError e \<Rightarrow> Value (Inl e, name @ body)
      | FrameTooShort _ \<Rightarrow> Value (Inr None, name @ body))"
  using server_dispatch [OF assms] by (simp add: body_step_def)

theorem server_name_selects_decoder_witness:
  "server_decode ref_deps (''pInG'' @ CRLF @ ''x'') =
    run_bind (ping_server_decode ref_deps (CRLF @ ''x'')) (\<lambda>r. case r of
        Advance frame consume \<Rightarrow>
          (if consume \<le> length (CRLF @ ''x'') then Value (Inr (Some frame), drop consume (CRLF @ ''x''))
           else Panic)
      | FatalError e \<Rightarrow> Value (Inl e, ''pInG'' @ CRLF @ ''x'')
      | FrameTooShort _ \<Rightarrow> Value (Inr None, ''pInG'' @ CRLF @ ''x''))"
  by (rule server_name_selects_decoder [OF _ _ server_table_mem(1)])
    (simp_all add: eq_ignore_ascii_case_eval lower_val_def byte_val_def Let_def line_in_reach_def
      BUFSIZE_LIMIT_def CRLF_def CR_def LF_def)

end
