(* ===== verification/Wire_Contract.thy ===== *)
theory Wire_Contract
  imports Client_Codec Server_Codec Binding_Properties
begin

text \<open>
  Where the codec and the connection meet: the commands a \<open>NatsBinding\<close> transmits are ones the
  wire can carry when the user's commands are, and the frames the codec decodes are the inputs
  the binding delivers.
\<close>

subsection \<open>Lengths of numbers\<close>

lemma length_show_nat: "n < 10 ^ Suc k \<Longrightarrow> length (show_nat n) \<le> Suc k"
proof (induction k arbitrary: n)
  case 0
  then show ?case by (simp add: show_nat.simps)
next
  case (Suc k)
  show ?case
  proof (cases "n < 10")
    case True
    then show ?thesis by (simp add: show_nat.simps)
  next
    case False
    then have "n div 10 < 10 ^ Suc k" using Suc.prems by (simp add: less_mult_imp_div_less)
    from Suc.IH [OF this] False show ?thesis by (simp add: show_nat.simps [of n])
  qed
qed

lemma length_show_usize: "length (show_usize w) \<le> 20"
proof -
  have "unat w < 2 ^ 64" using unsigned_less [of w, where 'a = nat] by simp
  then have "unat w < 10 ^ Suc 19" by simp
  from length_show_nat [OF this] show ?thesis by (simp add: show_usize_def)
qed

lemma u64_to_string_usize: "u64_to_string n = show_usize n"
  by (simp add: u64_to_string_def show_usize_def)

subsection \<open>Commands the user may issue\<close>

text \<open>
  Subjects, queue groups and ids without space or line break that leave room on the line, and
  payloads without line break.
\<close>

fun opt_length :: "rstring option \<Rightarrow> nat" where
  "opt_length None = 0"
| "opt_length (Some s) = length s"

fun wf_command :: "'one connection_command \<Rightarrow> bool" where
  "wf_command (Subscribe subject options _) \<longleftrightarrow> token subject \<and> token_opt (opt_queue_group options) \<and>
     length subject + opt_length (opt_queue_group options) \<le> 65000"
| "wf_command (Unsubscribe sid _) \<longleftrightarrow> token sid \<and> length sid \<le> 65000"
| "wf_command (Publish subject payload) \<longleftrightarrow> token subject \<and> length subject \<le> 65000 \<and>
     no_crlf payload \<and> length payload < 2 ^ 64"

lemma join_fields_length: "length (join_fields fs) = sum_list (map length fs) + (length fs - 1)"
  by (induction fs rule: join_fields.induct) simp_all

lemma wf_sent_subscribe:
  assumes "token s" "token_opt q" "length s + opt_length q \<le> 65000"
  shows "wf_client d (C_Subscribe \<lparr>sub_subject = s, sub_queue_group = q, sub_sid = show_usize n\<rparr>)"
  using assms length_show_usize [of n]
  by (cases q) (simp_all add: wf_client_def wf_subscribe_def sub_meta_def join_fields_length BUFSIZE_LIMIT_def)

lemma wf_sent_unsubscribe:
  assumes "token s" "length s \<le> 65000"
  shows "wf_client d (C_Unsubscribe \<lparr>unsub_sid = s, unsub_max_msgs = m\<rparr>)"
proof (cases m)
  case (Some k)
  with assms length_show_usize [of "nz_get k"] show ?thesis
    by (simp add: wf_client_def unsub_meta_def join_fields_length BUFSIZE_LIMIT_def)
qed (use assms in \<open>simp add: wf_client_def unsub_meta_def join_fields_length BUFSIZE_LIMIT_def\<close>)

lemma wf_sent_publish:
  assumes "token s" "length s \<le> 65000" "no_crlf p" "length p < 2 ^ 64"
  shows "wf_client d (C_Publish \<lparr>pub_subject = s, pub_reply_to = None,
    pub_bytes = of_nat (length p), pub_payload = p\<rparr>)"
proof -
  have "unat (of_nat (length p) :: usize) = length p"
    using assms(4) by (simp add: unsigned_of_nat take_bit_nat_eq_self)
  with assms length_show_usize [of "of_nat (length p)"] show ?thesis
    by (simp add: wf_client_def wf_publish_def pub_meta_def join_fields_length BUFSIZE_LIMIT_def)
qed

lemma transmits_wf:
  assumes "wf_command c" "x \<in> set (transmits n c)"
  shows "wf_client d x"
proof (cases c)
  case (Subscribe subject options sender)
  have "token (show_usize n)" "length (show_usize n) \<le> 65000"
    using length_show_usize [of n] by simp_all
  with assms Subscribe show ?thesis
    by (auto simp: u64_to_string_usize wf_sent_subscribe wf_sent_unsubscribe split: option.splits)
qed (use assms in \<open>auto simp: wf_sent_unsubscribe wf_sent_publish\<close>)

lemma transmits_all_wf:
  "\<forall>c \<in> set cs. wf_command c \<Longrightarrow> x \<in> set (transmits_all n cs) \<Longrightarrow> wf_client d x"
  by (induction cs arbitrary: n) (auto dest: transmits_wf)

subsection \<open>Every command a connection transmits can be encoded\<close>

text \<open>
  The invariant: if every command the user has issued is one the wire can carry, so is every
  command transmitted, in the queue, or kept until \<open>INFO\<close> arrives.
\<close>

definition issued_ok :: "'one event list \<Rightarrow> bool" where
  "issued_ok es \<longleftrightarrow> (\<forall>c now. Client_input c now \<in> set es \<longrightarrow> wf_command c)"

lemma issued_ok_snoc [simp]:
  "issued_ok (es @ [e]) \<longleftrightarrow> issued_ok es \<and> (\<forall>c now. e = Client_input c now \<longrightarrow> wf_command c)"
  by (auto simp: issued_ok_def)

definition sendable :: "crates \<Rightarrow> 'one event list \<Rightarrow> ('one, 'tx) nats_binding \<times> 'w \<Rightarrow> bool" where
  "sendable d es y \<longleftrightarrow> (issued_ok es \<longrightarrow>
     (\<forall>x \<in> set (polled es @ queued (fst y)). wf_client d x) \<and>
     (\<forall>a. conn_state (fst y) = AwaitingInfo a \<longrightarrow> (\<forall>(c, _) \<in> set (preliminary a). wf_command c)))"

lemma wf_ping_pong: "wf_client d C_Ping" "wf_client d C_Pong"
  by (simp_all add: wf_client_def BUFSIZE_LIMIT_def)

lemma appended_wf:
  assumes "x \<in> set (appended r t e)" "\<forall>c now. e = Client_input c now \<longrightarrow> wf_command c"
  shows "wf_client d x"
  using assms
  by (cases e) (auto simp: wf_ping_pong intro: transmits_wf split: option.splits if_splits)

lemma sendable_step:
  assumes c: "wf_client d (C_Connect hello_connect)"
    and i: "sendable d es (b, w)" and s: "binding_step io (b, w) e (b', w')"
  shows "sendable d (es @ [e]) (b', w')"
proof (cases "issued_ok (es @ [e])")
  case ok: True
  then have old: "\<forall>x \<in> set (polled es @ queued b). wf_client d x"
    "\<And>a. conn_state b = AwaitingInfo a \<Longrightarrow> \<forall>(c, _) \<in> set (preliminary a). wf_command c"
    using i by (auto simp: sendable_def)
  have "\<forall>x \<in> set (polled (es @ [e]) @ queued b'). wf_client d x"
    using s
  proof (rule history_step [where es = es])
    fix r r' assume "polled (es @ [e]) @ queued b' = polled es @ queued b @ appended r (timeouts b) e"
    with old(1) appended_wf ok show ?thesis by (metis UnE append_assoc issued_ok_snoc set_append)
  next
    fix a r assume "conn_state b = AwaitingInfo a" "polled (es @ [e]) = polled es"
      "queued b' = C_Connect hello_connect # transmits_all 1 (map fst (preliminary a))"
    moreover from old(2) [OF this(1)] have "\<forall>c \<in> set (map fst (preliminary a)). wf_command c" by auto
    note transmits_all_wf [OF this]
    ultimately show ?thesis using old(1) c by (simp del: polled_append) blast
  qed (use old(1) in \<open>simp_all del: polled_append\<close>)
  moreover have "\<forall>(c, _) \<in> set (preliminary a). wf_command c" if a: "conn_state b' = AwaitingInfo a" for a
  proof (cases "\<exists>r. conn_state b = InfoReceived r")
    case True
    with established_step [OF s] a show ?thesis by fastforce
  next
    case False
    then have "\<forall>r. conn_state b \<noteq> InfoReceived r" by blast
    from other_step [OF s this] show ?thesis
    proof (elim conjE disjE exE)
      assume "conn_state b' = conn_state b"
      with a old(2) [of a] show ?thesis by simp
    next
      fix a' c now
      assume "conn_state b = AwaitingInfo a'" "e = Client_input c now"
        "conn_state b' = AwaitingInfo (a'\<lparr>preliminary := preliminary a' @ [(c, now)]\<rparr>)"
      moreover from this a have "preliminary a = preliminary a' @ [(c, now)]" by auto
      ultimately show ?thesis using old(2) ok by simp
    qed (use a in simp_all)
  qed
  ultimately show ?thesis by (simp add: sendable_def)
qed (simp add: sendable_def del: issued_ok_snoc)

lemma run_sendable:
  assumes "wf_client d (C_Connect hello_connect)" "binding_run io (new_binding t, w) es y"
  shows "sendable d es y"
  using assms(2)
  by (rule run_invariant [where I = "sendable d", OF _ _ sendable_step [OF assms(1)]])
    (simp_all add: sendable_def queued_def new_binding_def)

lemma run_polled_wf:
  assumes "wf_client d (C_Connect hello_connect)" "binding_run io (new_binding t, w) es y" "issued_ok es"
  shows "\<forall>x \<in> set (polled es). wf_client d x"
  using run_sendable [OF assms(1,2)] assms(3) by (simp add: sendable_def)

subsection \<open>Frames for the binding\<close>

lemma delivered_msgs:
  "delivered r (map (\<lambda>c. (c, now)) cs) tx =
   map message_of_msg [m. S_Msg m \<leftarrow> cs, sid2subscriber r (msg_sid m) = Some tx]"
proof (induction cs)
  case (Cons c cs)
  then show ?case by (cases c) simp_all
qed simp

end
