(* ===== verification/Codec_Tests.thy ===== *)
theory Codec_Tests
  imports Server_Codec Client_Codec
begin

text \<open>
  The unit tests of nats_codec/src/lib.rs, one definition each, run on the model: a \<open>FramedRead\<close>
  over a byte slice has all of it in its buffer at the first call, decodes one frame and, when
  the buffer is empty at the end of the input, returns \<open>None\<close>. They hold for every behaviour of
  the third-party crates within their documentation.
\<close>

subsection \<open>The tests\<close>

definition decodes_to :: "(buf \<Rightarrow> ('t, 'e) decode_result) \<Rightarrow> buf \<Rightarrow> 't \<Rightarrow> bool" where
  "decodes_to dec input frame \<longleftrightarrow>
     dec input = Value (Inr (Some frame), []) \<and> dec [] = Value (Inr None, [])"

definition test_msg_short :: "crates \<Rightarrow> bool" where
  "test_msg_short d \<longleftrightarrow> decodes_to (server_decode d)
     (''MSG FOO.BAR 9 11'' @ CRLF @ ''Hello World'' @ CRLF)
     (S_Msg \<lparr>msg_subject = ''FOO.BAR'', msg_sid = ''9'', msg_reply_to = None,
       msg_bytes = 11, msg_payload = ''Hello World''\<rparr>)"

definition test_msg_long :: "crates \<Rightarrow> bool" where
  "test_msg_long d \<longleftrightarrow> decodes_to (server_decode d)
     (''MSG FOO.BAR 9 GREETING.34 11'' @ CRLF @ ''Hello World'' @ CRLF)
     (S_Msg \<lparr>msg_subject = ''FOO.BAR'', msg_sid = ''9'', msg_reply_to = Some ''GREETING.34'',
       msg_bytes = 11, msg_payload = ''Hello World''\<rparr>)"

definition test_hmsg_short :: "crates \<Rightarrow> bool" where
  "test_hmsg_short d \<longleftrightarrow> decodes_to (server_decode d)
     (''HMSG FOO.BAR 9 34 45'' @ CRLF @ ''NATS/1.0'' @ CRLF @ ''FoodGroup: vegetable'' @ CRLF @ CRLF @ ''Hello World'' @ CRLF)
     (S_HMsg \<lparr>hmsg_subject = ''FOO.BAR'', hmsg_sid = ''9'', hmsg_reply_to = None,
       hmsg_header_bytes = 34, hmsg_total_bytes = 45, hmsg_headers = [''FoodGroup'' \<mapsto> [''vegetable'']],
       hmsg_payload = ''Hello World''\<rparr>)"

definition test_hmsg_long :: "crates \<Rightarrow> bool" where
  "test_hmsg_long d \<longleftrightarrow> decodes_to (server_decode d)
     (''HMSG FOO.BAR 9 BAZ.69 34 45'' @ CRLF @ ''NATS/1.0'' @ CRLF @ ''FoodGroup: vegetable'' @ CRLF @ CRLF @ ''Hello World'' @ CRLF)
     (S_HMsg \<lparr>hmsg_subject = ''FOO.BAR'', hmsg_sid = ''9'', hmsg_reply_to = Some ''BAZ.69'',
       hmsg_header_bytes = 34, hmsg_total_bytes = 45, hmsg_headers = [''FoodGroup'' \<mapsto> [''vegetable'']],
       hmsg_payload = ''Hello World''\<rparr>)"

definition test_ping_server :: "crates \<Rightarrow> bool" where
  "test_ping_server d \<longleftrightarrow> decodes_to (server_decode d)
     (''PING'' @ CRLF)
     S_Ping"

definition test_pong_server :: "crates \<Rightarrow> bool" where
  "test_pong_server d \<longleftrightarrow> decodes_to (server_decode d)
     (''PONG'' @ CRLF)
     S_Pong"

definition test_ping_client :: "crates \<Rightarrow> bool" where
  "test_ping_client d \<longleftrightarrow> decodes_to (client_decode d)
     (''PING'' @ CRLF)
     C_Ping"

definition test_pong_client :: "crates \<Rightarrow> bool" where
  "test_pong_client d \<longleftrightarrow> decodes_to (client_decode d)
     (''PONG'' @ CRLF)
     C_Pong"

definition test_ok :: "crates \<Rightarrow> bool" where
  "test_ok d \<longleftrightarrow> decodes_to (server_decode d)
     (''+OK'' @ CRLF)
     S_Ok"

definition test_err :: "crates \<Rightarrow> bool" where
  "test_err d \<longleftrightarrow> decodes_to (server_decode d)
     (''-ERR '' @ [CHR 0x27] @ ''Unknown Protocol Operation'' @ [CHR 0x27] @ CRLF)
     (S_Err ''Unknown Protocol Operation'')"

definition test_pub :: "crates \<Rightarrow> bool" where
  "test_pub d \<longleftrightarrow> decodes_to (client_decode d)
     (''PUB FOO 11'' @ CRLF @ ''Hello NATS!'' @ CRLF)
     (C_Publish \<lparr>pub_subject = ''FOO'', pub_reply_to = None,
       pub_bytes = 11, pub_payload = ''Hello NATS!''\<rparr>)"

definition test_pub_reply_to :: "crates \<Rightarrow> bool" where
  "test_pub_reply_to d \<longleftrightarrow> decodes_to (client_decode d)
     (''PUB FRONT.DOOR JOKE.22 11'' @ CRLF @ ''Knock Knock'' @ CRLF)
     (C_Publish \<lparr>pub_subject = ''FRONT.DOOR'', pub_reply_to = Some ''JOKE.22'',
       pub_bytes = 11, pub_payload = ''Knock Knock''\<rparr>)"

definition test_pub_empty_msg :: "crates \<Rightarrow> bool" where
  "test_pub_empty_msg d \<longleftrightarrow> decodes_to (client_decode d)
     (''PUB NOTIFY 0'' @ CRLF @ CRLF)
     (C_Publish \<lparr>pub_subject = ''NOTIFY'', pub_reply_to = None,
       pub_bytes = 0, pub_payload = ''''\<rparr>)"

definition test_sub :: "crates \<Rightarrow> bool" where
  "test_sub d \<longleftrightarrow> decodes_to (client_decode d)
     (''SUB FOO 1'' @ CRLF)
     (C_Subscribe \<lparr>sub_subject = ''FOO'', sub_queue_group = None, sub_sid = ''1''\<rparr>)"

definition test_sub_queue_group :: "crates \<Rightarrow> bool" where
  "test_sub_queue_group d \<longleftrightarrow> decodes_to (client_decode d)
     (''SUB BAR G1 44'' @ CRLF)
     (C_Subscribe \<lparr>sub_subject = ''BAR'', sub_queue_group = Some ''G1'', sub_sid = ''44''\<rparr>)"

definition test_unsub :: "crates \<Rightarrow> bool" where
  "test_unsub d \<longleftrightarrow> decodes_to (client_decode d)
     (''UNSUB 1'' @ CRLF)
     (C_Unsubscribe \<lparr>unsub_sid = ''1'', unsub_max_msgs = None\<rparr>)"

definition test_unsub_max_msgs :: "crates \<Rightarrow> bool" where
  "test_unsub_max_msgs d \<longleftrightarrow> decodes_to (client_decode d)
     (''UNSUB 1 5'' @ CRLF)
     (C_Unsubscribe \<lparr>unsub_sid = ''1'', unsub_max_msgs = nz_new 5\<rparr>)"

definition test_hpub_simple :: "crates \<Rightarrow> bool" where
  "test_hpub_simple d \<longleftrightarrow> decodes_to (client_decode d)
     (''HPUB FOO 22 33'' @ CRLF @ ''NATS/1.0'' @ CRLF @ ''Bar: Baz'' @ CRLF @ CRLF @ ''Hello NATS!'' @ CRLF)
     (C_HPublish \<lparr>hpub_subject = ''FOO'', hpub_reply_to = None,
       hpub_header_bytes = 22, hpub_total_bytes = 33, hpub_headers = [''Bar'' \<mapsto> [''Baz'']],
       hpub_payload = ''Hello NATS!''\<rparr>)"

definition test_hpub_reply_to :: "crates \<Rightarrow> bool" where
  "test_hpub_reply_to d \<longleftrightarrow> decodes_to (client_decode d)
     (''HPUB FRONT.DOOR JOKE.22 45 56'' @ CRLF @ ''NATS/1.0'' @ CRLF @ ''BREAKFAST: donut'' @ CRLF @ ''LUNCH: burger'' @ CRLF @ CRLF @ ''Knock Knock'' @ CRLF)
     (C_HPublish \<lparr>hpub_subject = ''FRONT.DOOR'', hpub_reply_to = Some ''JOKE.22'',
       hpub_header_bytes = 45, hpub_total_bytes = 56, hpub_headers = [''BREAKFAST'' \<mapsto> [''donut''], ''LUNCH'' \<mapsto> [''burger'']],
       hpub_payload = ''Knock Knock''\<rparr>)"

definition test_hpub_empty_msg :: "crates \<Rightarrow> bool" where
  "test_hpub_empty_msg d \<longleftrightarrow> decodes_to (client_decode d)
     (''HPUB NOTIFY 22 22'' @ CRLF @ ''NATS/1.0'' @ CRLF @ ''Bar: Baz'' @ CRLF @ CRLF @ CRLF)
     (C_HPublish \<lparr>hpub_subject = ''NOTIFY'', hpub_reply_to = None,
       hpub_header_bytes = 22, hpub_total_bytes = 22, hpub_headers = [''Bar'' \<mapsto> [''Baz'']],
       hpub_payload = ''''\<rparr>)"

definition test_hpub_double_header :: "crates \<Rightarrow> bool" where
  "test_hpub_double_header d \<longleftrightarrow> decodes_to (client_decode d)
     (''HPUB MORNING.MENU 47 51'' @ CRLF @ ''NATS/1.0'' @ CRLF @ ''BREAKFAST: donut'' @ CRLF @ ''BREAKFAST: eggs'' @ CRLF @ CRLF @ ''Yum!'' @ CRLF)
     (C_HPublish \<lparr>hpub_subject = ''MORNING.MENU'', hpub_reply_to = None,
       hpub_header_bytes = 47, hpub_total_bytes = 51, hpub_headers = [''BREAKFAST'' \<mapsto> [''donut'', ''eggs'']],
       hpub_payload = ''Yum!''\<rparr>)"

definition test_connect_json :: buf where
  "test_connect_json = ''{\"verbose\":false,\"pedantic\":false,\"tls_required\":false,\"name\":\"\",\"lang\":\"go\",\"version\":\"1.2.2\",\"protocol\":1}''"

definition test_connect_value :: connect where
  "test_connect_value =
     \<lparr>con_verbose = False, con_pedantic = False, con_tls_required = False,
      con_auth_token = None, con_user = None, con_pass = None, con_name = Some [],
      con_lang = ''go'', con_version = ''1.2.2'', con_protocol = Some 1, con_echo = None,
      con_sig = None, con_jwt = None, con_no_responders = None, con_headers = None,
      con_nkey = None\<rparr>"

definition test_connect :: "crates \<Rightarrow> bool" where
  "test_connect d \<longleftrightarrow> decodes_to (client_decode d)
     (''CONNECT '' @ test_connect_json @ CRLF) (C_Connect test_connect_value)"

subsection \<open>Numbers and frames\<close>

lemma show_small:
  "show_usize 0 = ''0''" "show_usize 5 = ''5''" "show_usize 11 = ''11''" "show_usize 22 = ''22''"
  "show_usize 33 = ''33''" "show_usize 34 = ''34''" "show_usize 45 = ''45''" "show_usize 47 = ''47''"
  "show_usize 51 = ''51''" "show_usize 56 = ''56''"
proof -
  have "digit_char 0 = CHR ''0''" "digit_char 1 = CHR ''1''" "digit_char 2 = CHR ''2''"
    "digit_char 3 = CHR ''3''" "digit_char 4 = CHR ''4''" "digit_char 5 = CHR ''5''"
    "digit_char 6 = CHR ''6''" "digit_char 7 = CHR ''7''"
    by code_simp+
  then show "show_usize 0 = ''0''" "show_usize 5 = ''5''" "show_usize 11 = ''11''" "show_usize 22 = ''22''"
    "show_usize 33 = ''33''" "show_usize 34 = ''34''" "show_usize 45 = ''45''" "show_usize 47 = ''47''"
    "show_usize 51 = ''51''" "show_usize 56 = ''56''"
    by (simp_all add: show_usize_def show_nat.simps)
qed

text \<open>What evaluates the wire form and the well-formedness of a given command.\<close>

lemmas frame_eval = show_small token_def utf8_valid_ascii no_crlf_def CR_def byte_val_def
  BUFSIZE_LIMIT_def plain_header_def header_block_eq header_line_def push_header_def
  flatten_headers_def

lemma decodes_msg:
  assumes "memchr_ok d" "bytes_ok d" "wf_msg m" "length (msg_meta m) + 6 \<le> BUFSIZE_LIMIT"
    and "input = msg_wire m"
  shows "decodes_to (server_decode d) input (S_Msg m)"
  using server_msg_wire [OF assms(1-4), of "[]"] server_decode_nil [OF assms(1)] assms(5)
  by (simp add: decodes_to_def)

lemma decodes_hmsg:
  assumes "memchr_ok d" "bytes_ok d" "wf_hmsg h kvs" "length (hmsg_meta h) + 7 \<le> BUFSIZE_LIMIT"
    and "input = hmsg_wire h kvs"
  shows "decodes_to (server_decode d) input (S_HMsg h)"
  using server_hmsg_wire [OF assms(1-4), of "[]"] server_decode_nil [OF assms(1)] assms(5)
  by (simp add: decodes_to_def)

lemma decodes_line:
  assumes "memchr_ok d" "bytes_ok d" "(p, dec) \<in> set server_table" "no_crlf (p @ l)"
    and "length p + length l + 2 \<le> BUFSIZE_LIMIT" "dec d (l @ CRLF) = Value (Advance c (length l + 2))"
  shows "decodes_to (server_decode d) (p @ l @ CRLF) c"
  using server_line [OF assms(1-5), of "[]"] assms(6) server_decode_nil [OF assms(1)]
  by (simp add: decodes_to_def)

text \<open>
  The client-side decoder neither iterates over header maps nor writes JSON, so that the wire
  forms may be written by another instance of the crates.
\<close>

lemma client_decode_other:
  "client_decode (d\<lparr>json_to_writer := g, hash_iter := f\<rparr>) src = client_decode d src"
proof -
  let ?d = "d\<lparr>json_to_writer := g, hash_iter := f\<rparr>"
  have s: "slice_spliterator ?d = slice_spliterator d" "char_spliterator ?d = char_spliterator d"
    by (simp_all add: fun_eq_iff slice_spliterator_def char_spliterator_def)
  have ph: "parse_header ?d = parse_header d" by (simp add: fun_eq_iff parse_header_def)
  have hl: "header_loop ?d n it m = header_loop d n it m" for n it m
    by (induction it arbitrary: m) (auto simp: ph split: sum.splits)
  have hp: "parse_headers ?d = parse_headers d"
    unfolding fun_eq_iff parse_headers_def s hl by simp
  have f: "hpub_try_from ?d = hpub_try_from d" "hpub_fields ?d = hpub_fields d"
    "pub_fields ?d = pub_fields d" "sub_fields ?d = sub_fields d" "unsub_fields ?d = unsub_fields d"
    unfolding fun_eq_iff hpub_try_from_def hpub_fields_def pub_fields_def sub_fields_def
      unsub_fields_def s hp by simp_all
  have j: "json_connect ?d = json_connect d" by simp
  have b: "hpub_decode ?d = hpub_decode d" "publish_decode ?d = publish_decode d"
    "sub_decode ?d = sub_decode d" "unsub_decode ?d = unsub_decode d"
    "connect_decode ?d = connect_decode d" "ping_client_decode ?d = ping_client_decode d"
    "pong_client_decode ?d = pong_client_decode d"
    unfolding fun_eq_iff hpub_decode_def publish_decode_def sub_decode_def unsub_decode_def
      connect_decode_def ping_client_decode_def pong_client_decode_def empty_body_def s f j by simp_all
  have T: "try_decoders ?d u n src t = try_decoders d u n src t"
    if "\<forall>(p, dec) \<in> set t. dec ?d = dec d" for u n t
    using that by (induction t) auto
  have "\<forall>(p, dec) \<in> set client_table. dec ?d = dec d"
    by (simp add: client_table_def b)
  note T [OF this]
  then show ?thesis unfolding client_decode_def decoding_def by (simp split: option.split)
qed

lemma decodes_client:
  fixes d g f
  defines "d' \<equiv> d\<lparr>json_to_writer := g, hash_iter := f\<rparr>"
  assumes "memchr_ok d" "bytes_ok d" "wf_client d' c" "input = client_wire d' c"
  shows "decodes_to (client_decode d) input c"
proof -
  have d': "memchr_ok d'" "bytes_ok d'"
    using assms(2,3) unfolding d'_def memchr_ok_def bytes_ok_def by simp_all
  have nil: "client_decode d [] = Value (Inr None, [])"
    using client.decoding_no_line [OF assms(2), of "[]"]
    by (simp add: client_decode_def no_crlf_def BUFSIZE_LIMIT_def)
  have "client_decode d input = Value (Inr (Some c), [])"
    using client_round_trip_lemma [OF d' assms(4), of "[]"]
    unfolding append_Nil2 assms(5) [symmetric] unfolding d'_def client_decode_other .
  with nil show ?thesis by (simp add: decodes_to_def)
qed

subsection \<open>Server tests\<close>

lemma server_tests:
  assumes "memchr_ok d" "bytes_ok d"
  shows "test_msg_short d" "test_msg_long d" "test_hmsg_short d" "test_hmsg_long d"
    "test_ping_server d" "test_pong_server d" "test_ok d" "test_err d"
proof -
  show "test_msg_short d" "test_msg_long d"
    unfolding test_msg_short_def test_msg_long_def
    by (rule decodes_msg [OF assms]; simp add: wf_msg_def msg_wire_def msg_frame_def msg_meta_def frame_eval)+
  show "test_hmsg_short d" "test_hmsg_long d"
    unfolding test_hmsg_short_def test_hmsg_long_def
    by (rule decodes_hmsg [OF assms, where kvs = "[(''FoodGroup'', ''vegetable'')]"];
        simp add: wf_hmsg_def hmsg_wire_def hmsg_frame_def hmsg_meta_def frame_eval)+
  have e: "(empty_body f d ([] @ CRLF) :: (server_command, server_decode_error) body_result) =
      Value (Advance f (length ([] :: buf) + 2))" for f :: server_command
    using empty_body_wire [OF assms(1), of f "[]"] by (simp add: eval_nat_numeral)
  note empty = decodes_line [OF assms, where l = "[]"]
  show "test_ping_server d"
    using empty [OF server_table_mem(1) _ _ e [of S_Ping, folded ping_server_decode_def]]
    by (simp add: test_ping_server_def frame_eval)
  show "test_pong_server d"
    using empty [OF server_table_mem(2) _ _ e [of S_Pong, folded pong_server_decode_def]]
    by (simp add: test_pong_server_def frame_eval)
  show "test_ok d"
    using empty [OF server_table_mem(5) _ _ e [of S_Ok, folded ok_decode_def]]
    by (simp add: test_ok_def frame_eval)
  let ?l = "[CHR 0x27] @ ''Unknown Protocol Operation'' @ [CHR 0x27]"
  have "no_crlf ?l" by (simp add: frame_eval)
  from line_body_Cons [OF err_decode_line slice_spliterator_first [OF assms(1) this, of "[]"]]
  have "err_decode d (?l @ CRLF) = Value (Advance (S_Err ''Unknown Protocol Operation'') (length ?l + 2))"
    by (simp add: err_line_def frame_eval)
  from decodes_line [OF assms server_table_mem(6) _ _ this] show "test_err d"
    by (simp add: test_err_def frame_eval)
qed

subsection \<open>Client tests\<close>

lemmas client_eval = wf_client_def wf_publish_def wf_subscribe_def wf_hpublish_def wf_header_map_def
  hash_ok_def pub_meta_def sub_meta_def unsub_meta_def hpub_meta_def frame_eval

lemma client_tests:
  assumes "memchr_ok d" "bytes_ok d"
  shows "test_ping_client d" "test_pong_client d" "test_pub d" "test_pub_reply_to d"
    "test_pub_empty_msg d" "test_sub d" "test_sub_queue_group d" "test_unsub d" "test_unsub_max_msgs d"
proof -
  have five: "nz_new 5 = Some (Abs_nonzero 5)" "nz_get (Abs_nonzero 5) = 5"
    by (simp_all add: nz_new_def Abs_nonzero_inverse)
  show "test_ping_client d" "test_pong_client d" "test_pub d" "test_pub_reply_to d"
    "test_pub_empty_msg d" "test_sub d" "test_sub_queue_group d" "test_unsub d" "test_unsub_max_msgs d"
    unfolding test_ping_client_def test_pong_client_def test_pub_def test_pub_reply_to_def
      test_pub_empty_msg_def test_sub_def test_sub_queue_group_def test_unsub_def test_unsub_max_msgs_def
    by (rule decodes_client [OF assms]; simp add: client_eval five)+
qed

lemma hpub_tests:
  assumes "memchr_ok d" "bytes_ok d"
  shows "test_hpub_simple d" "test_hpub_reply_to d" "test_hpub_empty_msg d" "test_hpub_double_header d"
proof -
  show "test_hpub_simple d" "test_hpub_empty_msg d"
    unfolding test_hpub_simple_def test_hpub_empty_msg_def
    by (rule decodes_client [OF assms, where f = "\<lambda>_. [(''Bar'', [''Baz''])]"]; simp add: client_eval)+
  show "test_hpub_reply_to d"
    unfolding test_hpub_reply_to_def
    by (rule decodes_client [OF assms, where f = "\<lambda>_. [(''BREAKFAST'', [''donut'']), (''LUNCH'', [''burger''])]"];
        simp add: client_eval fun_upd_twist)
  show "test_hpub_double_header d"
    unfolding test_hpub_double_header_def
    by (rule decodes_client [OF assms, where f = "\<lambda>_. [(''BREAKFAST'', [''donut'', ''eggs''])]"];
        simp add: client_eval)
qed

lemma connect_test:
  assumes "memchr_ok d" "bytes_ok d" "json_connect d test_connect_json = Some test_connect_value"
  shows "test_connect d"
  unfolding test_connect_def
proof (rule decodes_client [OF assms(1,2), where g = "\<lambda>dst c. (dst @ test_connect_json, None)"])
  have "no_crlf test_connect_json" by (rule no_crlf_if_no_CR) (simp add: test_connect_json_def CR_def)
  then show "wf_client (d\<lparr>json_to_writer := \<lambda>dst c. (dst @ test_connect_json, None), hash_iter := f\<rparr>)
      (C_Connect test_connect_value)" for f
    using assms(3) by (simp add: wf_client_def json_connect_ok_def no_crlf_iff)
      (simp add: test_connect_json_def BUFSIZE_LIMIT_def)
qed simp

subsection \<open>Property\<close>

text \<open>C26: The repository's unit tests of the codec pass on the model: each of the 22 inputs decodes, by
  one call that consumes it, to the command the test expects, and then there is nothing more; for
  every behaviour of the crates within their documentation that reads the \<open>CONNECT\<close> text of the last
  test as that test expects.\<close>

theorem codec_tests_pass:
  assumes "memchr_ok d" "bytes_ok d" "json_connect d test_connect_json = Some test_connect_value"
  shows "test_msg_short d \<and> test_msg_long d \<and> test_hmsg_short d \<and> test_hmsg_long d \<and>
    test_ping_server d \<and> test_pong_server d \<and> test_ping_client d \<and> test_pong_client d \<and>
    test_ok d \<and> test_err d \<and> test_pub d \<and> test_pub_reply_to d \<and> test_pub_empty_msg d \<and>
    test_sub d \<and> test_sub_queue_group d \<and> test_unsub d \<and> test_unsub_max_msgs d \<and>
    test_hpub_simple d \<and> test_hpub_reply_to d \<and> test_hpub_empty_msg d \<and>
    test_hpub_double_header d \<and> test_connect d"
  using server_tests [OF assms(1,2)] client_tests [OF assms(1,2)] hpub_tests [OF assms(1,2)]
    connect_test [OF assms] by blast

theorem codec_tests_pass_witness:
  "test_hpub_reply_to (ref_crates [] test_connect_json test_connect_value [] ref_info) \<and>
   test_connect (ref_crates [] test_connect_json test_connect_value [] ref_info)"
proof -
  let ?d = "ref_crates [] test_connect_json test_connect_value [] ref_info"
  have "json_connect ?d test_connect_json = Some test_connect_value" by (simp add: ref_crates_def)
  from codec_tests_pass [OF _ _ this] show ?thesis by simp
qed

end
