(* ===== verification/Binding_Tests.thy ===== *)
theory Binding_Tests
  imports Binding_Claims
begin

text \<open>
  The unit tests of nats_sans_io/src/lib.rs run on the model: an assertion that fails is a
  panic. They hold for every \<open>INFO\<close>, every start time and every implementation of the channels.
\<close>

subsection \<open>Assertions and steps\<close>

definition assert_then :: "bool \<Rightarrow> 'a run \<Rightarrow> 'a run" where
  "assert_then p k = (if p then k else Panic)"

definition from_secs :: "nat \<Rightarrow> duration" where
  "from_secs n = n * 1000000000"

record step_expectations =
  expect_send_ping :: "instant option"
  expect_send_pong :: "instant option"
  expect_keep_alive :: "instant option"

definition test_step ::
  "('one, 'tx) nats_binding \<Rightarrow> instant \<Rightarrow> step_expectations \<Rightarrow> ('one, 'tx) nats_binding run" where
  "test_step b tick e =
     run_bind (poll_send_ping_timeout b tick) (\<lambda>p. assert_then (p = expect_send_ping e)
     (run_bind (poll_send_pong_timeout b) (\<lambda>q. assert_then (q = expect_send_pong e)
     (run_bind (poll_keep_alive_timeout b) (\<lambda>k. assert_then (k = expect_keep_alive e)
       (Value (handle_keep_alive_timeout
          (handle_send_pong_timeout (handle_send_ping_timeout b tick) tick) tick)))))))"

text \<open>\<open>assert!\<close> on the result of \<open>poll_transmit\<close>.\<close>

definition expect_transmit ::
  "(client_command option \<Rightarrow> bool) \<Rightarrow> ('one, 'tx) nats_binding \<Rightarrow> ('one, 'tx) nats_binding run" where
  "expect_transmit ok b = (case poll_transmit b of (c, b') \<Rightarrow> assert_then (ok c) (Value b'))"

fun is_connect :: "client_command option \<Rightarrow> bool" where
  "is_connect (Some (C_Connect c)) = True"
| "is_connect _ = False"

fun expect_all ::
  "(client_command option \<Rightarrow> bool) list \<Rightarrow> ('one, 'tx) nats_binding \<Rightarrow> ('one, 'tx) nats_binding run" where
  "expect_all [] b = Value b"
| "expect_all (ok # oks) b = run_bind (expect_transmit ok b) (expect_all oks)"

fun is_awaiting :: "('one, 'tx) conn_state \<Rightarrow> bool" where
  "is_awaiting (AwaitingInfo a) = True"
| "is_awaiting _ = False"

fun is_established :: "('one, 'tx) conn_state \<Rightarrow> bool" where
  "is_established (InfoReceived r) = True"
| "is_established _ = False"

subsection \<open>\<open>timeouts\<close>\<close>

definition test_timeouts_limits :: timeouts where
  "test_timeouts_limits =
     \<lparr>ping_interval = from_secs 2, pong_delay = from_secs 0, keep_alive_limit = from_secs 3\<rparr>"

definition test_timeouts ::
  "('w, 'tx, 'rx, 'one) tokio_sync \<Rightarrow> info \<Rightarrow> instant \<Rightarrow> 'w \<Rightarrow> 'w run" where
  "test_timeouts io i now w =
     (let b0 = new_binding test_timeouts_limits in
      assert_then (is_awaiting (conn_state b0))
      (run_bind (test_step b0 now
         \<lparr>expect_send_ping = None, expect_send_pong = None, expect_keep_alive = None\<rparr>) (\<lambda>b1.
       run_bind (expect_all [\<lambda>c. c = None] b1) (\<lambda>b2.
       let tick = now + from_secs 1 in
       run_bind (handle_server_input io b2 (S_Info i) tick w) (\<lambda>(b3, w1).
       run_bind (test_step b3 tick
         \<lparr>expect_send_ping = Some tick, expect_send_pong = None, expect_keep_alive = None\<rparr>) (\<lambda>b4.
       run_bind (expect_all [is_connect, \<lambda>c. c = Some C_Ping, \<lambda>c. c = None] b4) (\<lambda>b5.
       let tick = now + from_secs 2 in
       run_bind (handle_server_input io b5 S_Pong tick w1) (\<lambda>(b6, w2).
       run_bind (test_step b6 tick
         \<lparr>expect_send_ping = Some (tick + from_secs 2 - from_secs 1), expect_send_pong = None,
          expect_keep_alive = Some (tick + from_secs 3)\<rparr>) (\<lambda>b7.
       run_bind (expect_all [\<lambda>c. c = None] b7) (\<lambda>b8.
       let tick = now + from_secs 3 in
       run_bind (handle_server_input io b8 S_Ping tick w2) (\<lambda>(b9, w3).
       run_bind (test_step b9 tick
         \<lparr>expect_send_ping = Some tick, expect_send_pong = Some tick,
          expect_keep_alive = Some (tick + from_secs 3 - from_secs 1)\<rparr>) (\<lambda>b10.
       run_bind (expect_all [\<lambda>c. c = Some C_Ping, \<lambda>c. c = Some C_Pong, \<lambda>c. c = None] b10) (\<lambda>b11.
       let tick = now + from_secs 7 in
       run_bind (test_step b11 tick
         \<lparr>expect_send_ping = Some (tick - from_secs 2), expect_send_pong = None,
          expect_keep_alive = Some (tick + from_secs 3 - from_secs 5)\<rparr>) (\<lambda>b12.
       run_bind (expect_all [\<lambda>c. c = None] b12) (\<lambda>b13.
       assert_then (conn_state b13 = ConnectionLost) (Value w3))))))))))))))))"

lemma timeouts_test:
  assumes "now + from_secs 7 < INSTANT_LIMIT"
  shows "test_timeouts io i now w = Value w"
  using assms
  by (simp add: test_timeouts_def test_timeouts_limits_def from_secs_def Let_def binding_eval
      test_step_def expect_transmit_def assert_then_def instant_add_def)

subsection \<open>\<open>retain_preemptive_messages\<close>\<close>

text \<open>
  \<open>sender\<close> is the sending half of the \<open>oneshot\<close> channel the test makes, \<open>received\<close> whether
  \<open>try_recv\<close> on the other half returns a response.
\<close>

fun is_subscribe :: "client_command option \<Rightarrow> bool" where
  "is_subscribe (Some (C_Subscribe s)) = True"
| "is_subscribe _ = False"

fun is_unsubscribe :: "client_command option \<Rightarrow> bool" where
  "is_unsubscribe (Some (C_Unsubscribe u)) = True"
| "is_unsubscribe _ = False"

definition test_retain_preemptive_messages ::
  "('w, 'tx, 'rx, 'one) tokio_sync \<Rightarrow> info \<Rightarrow> instant \<Rightarrow> 'one \<Rightarrow> ('w \<Rightarrow> bool) \<Rightarrow> 'w \<Rightarrow> 'w run" where
  "test_retain_preemptive_messages io i tick sender received w =
     (let b0 = new_binding \<lparr>ping_interval = from_secs 10, pong_delay = from_secs 10,
                            keep_alive_limit = from_secs 10\<rparr> in
      assert_then (is_awaiting (conn_state b0))
      (run_bind (handle_client_input io b0 (Publish ''preemptive'' ''Hello World!'') tick w) (\<lambda>(b1, w1).
       run_bind (handle_client_input io b1 (Subscribe ''preemptive''
           \<lparr>opt_max_msgs = nz_new 5, opt_queue_group = None\<rparr> sender) tick w1) (\<lambda>(b2, w2).
       run_bind (handle_server_input io b2 (S_Info i) tick w2) (\<lambda>(b3, w3).
       assert_then (is_established (conn_state b3))
       (run_bind (expect_all
          [is_connect,
           \<lambda>c. c = Some (C_Publish \<lparr>pub_subject = ''preemptive'', pub_reply_to = None,
             pub_bytes = of_nat (length ''Hello World!''), pub_payload = ''Hello World!''\<rparr>),
           is_subscribe, is_unsubscribe, \<lambda>c. c = None] b3) (\<lambda>b4.
       assert_then (received w3) (Value w3))))))))"

lemma retain_preemptive_messages_test:
  assumes "\<And>resp v. fst (oneshot_send io sender resp v) \<and> received (snd (oneshot_send io sender resp v))"
  shows "\<exists>w'. test_retain_preemptive_messages io i tick sender received w = Value w'"
proof -
  obtain tx rx w1 where c: "mpsc_channel io 1024 w = ((tx, rx), w1)" by (metis prod.exhaust_sel)
  let ?resp = "\<lparr>resp_sid = ''1'', resp_max_msgs = nz_new 5, resp_msg_chan = rx\<rparr>"
  obtain w2 where o: "oneshot_send io sender ?resp w1 = (True, w2)" "received w2"
    using assms [of ?resp w1] by (cases "oneshot_send io sender ?resp w1") auto
  have five: "nz_new 5 = Some (Abs_nonzero 5)" by (simp add: nz_new_def)
  show ?thesis
    using c o
    by (simp add: test_retain_preemptive_messages_def Let_def binding_eval five
        expect_transmit_def assert_then_def)
qed

subsection \<open>Property\<close>

text \<open>C25: The repository's unit tests of \<open>NatsBinding\<close> pass on the model: no assertion of \<open>timeouts\<close> and
  of \<open>retain_preemptive_messages\<close> fails, whatever the \<open>INFO\<close>, the time the test starts at (within the
  clock) and the channels, as long as the reply of the second test can be sent and received.\<close>

theorem binding_tests_pass:
  assumes "now + from_secs 7 < INSTANT_LIMIT"
    and "\<And>resp v. fst (oneshot_send io sender resp v) \<and> received (snd (oneshot_send io sender resp v))"
  shows "test_timeouts io i now w = Value w \<and>
    (\<exists>w'. test_retain_preemptive_messages io i now sender received w = Value w')"
  by (intro conjI timeouts_test retain_preemptive_messages_test assms(1) assms(2) [rule_format])

theorem binding_tests_pass_witness:
  "test_timeouts ref_sync ref_info 0 ref_world0 = Value ref_world0"
  using binding_tests_pass [of 0 ref_sync 7 "\<lambda>w. rw_replies w \<noteq> []" ref_info ref_world0]
  by (simp add: ref_sync_def from_secs_def INSTANT_LIMIT_def)

end
