(* ===== verification/Spec2Isabelle.thy ===== *)
theory Spec2Isabelle
  imports Tokio_Claims Wire_Contract Codec_Tests Binding_Tests
begin

text \<open>
  A verification library of the NATS client protocol implementation in Rust: the wire codec
  (src/nats_codec), the connection without input and output (src/nats_sans_io) and the client
  that drives it over TCP (src/nats_client).

  \<^bold>\<open>The program.\<close> Bytes from the server go through \<open>ServerCodec::decode\<close>, which looks for the first
  CR LF within 65535 bytes, finds the command by the case-insensitive prefix of the line and hands
  the bytes behind the name to that command's body decoder. The frames are fed to a \<open>NatsBinding\<close>,
  a state machine that waits for \<open>INFO\<close>, answers it with \<open>CONNECT\<close>, replays the commands the user
  has issued meanwhile, delivers messages to the channels of their subscriptions and keeps three
  timers. What it wants to send goes through \<open>ClientCodec::encode\<close>. The loop in
  tokio/connection.rs connects the three: it transmits all that is queued, waits for one of a
  tick, a user command or a frame, calls the binding's handler and resets the tickers.

  \<^bold>\<open>Theories and code.\<close>
  \<^item> \<open>Nats_Prelude\<close>: lemmas on lists and maps the components share. \<open>Rust_Std\<close>: the language and
    standard library as the code uses them: panics (\<open>run\<close>), \<open>usize\<close> and \<open>u64\<close> as 64-bit words,
    \<open>str::from_utf8\<close>, \<open>parse::<usize>\<close>, \<open>NonZeroUsize\<close>, number printing, \<open>Instant\<close> and \<open>Duration\<close>.
  \<^item> \<open>Nats_Types\<close>: the structs and enums of nats_codec/src/lib.rs and the error types. \<open>Crates\<close>: the
    third-party crates (memchr, bytes, serde_json) and the iteration order of \<open>HashMap\<close> as a record
    of functions, with their documented behaviour as predicates and a concrete instance.
  \<^item> \<open>Spliterators\<close> (decoding/mod.rs): the iterators as lists of their items, equal to the recursive
    split at CR LF and at spaces. \<open>Headers\<close> (decoding/header.rs). \<open>Command_Decoder\<close>: the trait and
    the locale of its contract. \<open>Server_Decoders\<close>, \<open>Client_Decoders\<close>: every \<open>decode_body\<close> and
    \<open>TryFrom\<close> of decoding/*.rs. \<open>Encoder\<close> (encoder.rs).
  \<^item> \<open>Decoder\<close> (decoder.rs): the framing loop for both codecs, with the locales \<open>growing_decoder\<close> (what
    waiting, a frame and an error mean for a buffer that grows) and \<open>decoder_table\<close>. \<open>Framed_Reader\<close>: the
    reader of a stream that comes in pieces, which decodes after every read until a call returns no
    frame, and the locale \<open>frame_codec\<close> (a decoder with the wire form it inverts, and the prefixes
    of a wire form it panics on). All three locales are interpreted on the two codecs.
    \<open>Framing_Laws\<close>: what the loop does on unknown commands, fatal errors, missing lines and panics.
  \<^item> \<open>Server_Codec\<close>, \<open>Client_Codec\<close>: the properties of the two codecs as a whole.
  \<^item> \<open>Sans_Io_State\<close> (state.rs, subscription.rs): both \<open>Step\<close> implementations. \<open>Sans_Io_Binding\<close>
    (lib.rs): \<open>NatsBinding\<close>, with the locale \<open>timer\<close> interpreted on its three timers.
    \<open>Binding_Runs\<close>: the calls of an owner in any order as a step relation, and the invariants of its
    runs. \<open>Keep_Alive\<close>: what runs say about PING, PONG and losing the connection.
    \<open>Binding_Properties\<close>: channels, delivery, replay. \<open>Binding_Claims\<close>: the properties of the binding.
  \<^item> \<open>Codec_Tests\<close>, \<open>Binding_Tests\<close>: the unit tests at the end of nats_codec/src/lib.rs and
    nats_sans_io/src/lib.rs, run on the model for all behaviours of the parameters.
  \<^item> \<open>Tokio_Client\<close> (tokio/connection.rs, tokio/subscriber.rs): the loop, the user's handle and the
    subscriber. \<open>Tokio_Claims\<close>: their properties. \<open>Wire_Contract\<close>: where binding and codec meet. The
    root: properties from the bytes of the network to the user's channels and back.

  \<^bold>\<open>State and effects.\<close> A buffer is a list of bytes (\<open>char\<close>), a \<open>String\<close> the list of its UTF-8
  bytes; a function that may panic returns a \<open>run\<close> (\<open>Value\<close> or \<open>Panic\<close>); errors are the source's
  enums in a sum. The world of the channels is a parameter threaded through the steps. A
  \<open>HashMap\<close> is a map. \<open>Instant\<close> is a natural number below \<open>INSTANT_LIMIT\<close>, adding to it panics on
  overflow and \<open>duration_since\<close> saturates, as documented. The subscription id is a 64-bit word that
  wraps as \<open>fetch_add\<close> does.

  \<^bold>\<open>What the lemmas show.\<close> Round trips of every client command, of every server command and of
  header maps, one by one and as streams; what the reader of a stream cut into reads has, exactly: all
  that was sent, unless a read ends inside an \<open>HMSG\<close> (on the client's side an \<open>HPUB\<close>) with the metadata
  line and \<open>total_bytes\<close> bytes there, where the decoder panics; that this is all the cutting can
  decide; the behaviour on every cut of an \<open>HMSG\<close> frame, on unknown commands, oversized lines and errors; where the decoders
  can panic; that decoded strings are UTF-8; the invariants of every run of the binding (\<open>CONNECT\<close>
  first and once, ids counting up and never displacing a subscriber, transmitted commands
  encodable), replay, delivery, the deadlines and the spacing of \<open>PING\<close>; that the loop refines the
  binding; and where the program does not do what it means to.

  \<^bold>\<open>Recursion.\<close> Every loop of the code is a total function: over the list of items, the list of
  decoders, the shrinking buffer or the shrinking queue. No fuel is used. The reader's inner loop
  \<open>drain\<close>, which runs for an arbitrary decoder and so may not end, is a partial function into
  \<open>option\<close>; \<open>reading_ends\<close> shows that for both codecs it ends on every input. A run of calls that
  return frames is the relation \<open>frames\<close>.

  \<^bold>\<open>Not modelled.\<close> Log output; \<open>reserve\<close>, which changes a capacity only; the JSON text of \<open>INFO\<close> and
  \<open>CONNECT\<close> (serde_json is a parameter); TCP; \<open>FramedRead\<close> of tokio_util, of which \<open>framed_read\<close> says only when it
  calls the decoder, the end of the stream left out; the tasks of tokio, whose choices are the events
  of the loop; the example programs, which hold no protocol logic. The commented-out code of header.rs, connection.rs and lib.rs has no counterpart.
\<close>

subsection \<open>What the loop writes\<close>

text \<open>A codec that knows the JSON text of \<open>hello_connect\<close>, and a writer that keeps the bytes.\<close>

definition sample_deps :: crates where
  "sample_deps = ref_crates [] ref_connect_json hello_connect ''{}'' ref_info"

definition codec_runtime :: "crates \<Rightarrow> (buf, instant) runtime" where
  "codec_runtime d = \<lparr>writer_send = (\<lambda>c net. fst (encode d c net)), reset_at = (\<lambda>tk t. t)\<rparr>"

lemma fold_encode: "bytes_ok d \<Longrightarrow> \<forall>c \<in> set cs. wf_client d c \<Longrightarrow>
  fold (\<lambda>c net. fst (encode d c net)) cs net = fst (encode_all d cs net)"
  by (induction cs arbitrary: net) (simp_all add: encode_wf)

lemma live_issued: "filter (\<lambda>e. \<not> is_transmit e) es = live_arms arms \<Longrightarrow>
  \<forall>(a, _) \<in> set arms. \<forall>c now. a = Command_received c now \<longrightarrow> wf_command c \<Longrightarrow> issued_ok es"
proof -
  assume f: "filter (\<lambda>e. \<not> is_transmit e) es = live_arms arms"
    and c: "\<forall>(a, _) \<in> set arms. \<forall>c now. a = Command_received c now \<longrightarrow> wf_command c"
  have "wf_command c" if "Client_input c now \<in> set es" for c now
  proof -
    from that have "Client_input c now \<in> set (live_arms arms)" by (simp flip: f)
    then obtain a t where "(a, t) \<in> set arms" "Client_input c now \<in> set (arm_events a)"
      by (auto simp: live_arms_def dest: set_takeWhileD)
    moreover from this(2) have "a = Command_received c now"
      by (cases a rule: arm_events.cases) auto
    ultimately show ?thesis using c by auto
  qed
  then show ?thesis by (simp add: issued_ok_def)
qed

lemma wf_hello: "wf_client sample_deps (C_Connect hello_connect)"
proof -
  have "no_crlf ref_connect_json" by (rule no_crlf_if_no_CR) (simp add: ref_connect_json_def CR_def)
  then show ?thesis
    by (simp add: wf_client_def sample_deps_def json_connect_ok_def ref_crates_def no_crlf_iff)
      (simp add: ref_connect_json_def BUFSIZE_LIMIT_def)
qed

text \<open>C3: What the client puts on the wire is a well-formed NATS conversation: if the user's commands fit
  the wire, then after any sequence of \<open>select!\<close> outcomes that did not panic the bytes written by the
  loop decode, with nothing left over, to a list of commands that begins with the fixed \<open>CONNECT\<close>,
  has no other, and subscribes with the ids 1, 2, 3 and so on; it is the list some run of the binding
  with exactly these inputs transmits.\<close>

theorem loop_bytes_decode:
  assumes "memchr_ok d" "bytes_ok d" "wf_client d (C_Connect hello_connect)"
    and "writer_send rt = (\<lambda>c net. fst (encode d c net))"
    and "\<forall>(a, _) \<in> set arms. \<forall>c now. a = Command_received c now \<longrightarrow> wf_command c"
    and "run_client io rt handle_send t [] tickers sender arms w = Value (go, s', w')"
  shows "\<exists>cmds. frames (client_decode d) (writer s') cmds [] \<and> connect_first cmds \<and>
    subscribe_sids cmds = sids_upto (length (subscribe_sids cmds)) \<and>
    (\<exists>es w1. binding_run io (new_binding t, w1) es (binding s', w') \<and> polled es = cmds \<and>
      filter (\<lambda>e. \<not> is_transmit e) es = live_arms arms)"
proof -
  obtain w1 ping pong keep where l: "run_loop io rt (loop_start t [] ping pong keep) arms w1 = Value (go, s', w')"
    using assms(6) by (auto simp: run_client_def split: prod.splits)
  obtain es where es: "binding_run io (new_binding t, w1) es (binding s', w')"
    "filter (\<lambda>e. \<not> is_transmit e) es = live_arms arms" "writer s' = fold (writer_send rt) (polled es) []"
    using run_loop_run [OF l] by (auto simp: loop_start_def)
  have c: "\<forall>x \<in> set (polled es). wf_client d x"
    by (rule run_polled_wf [OF assms(3) es(1) live_issued [OF es(2) assms(5)]])
  have "writer s' = concat (map (client_wire d) (polled es))"
    using es(3) fold_encode [OF assms(2) c] encode_all_wire [OF assms(2) c] by (simp add: assms(4))
  then have "frames (client_decode d) (writer s') (polled es) []"
    using client_codec.frames_stream [OF assms(1,2) c, of "[]"] by simp
  moreover have "connect_first (polled es)"
    using run_connected [OF es(1)] connect_first_prefix by (auto simp: connected_history_def)
  moreover have "subscribe_sids (polled es) = sids_upto (length (subscribe_sids (polled es)))"
    using run_counted [OF es(1)] by (auto simp: counted_history_def dest: sids_upto_prefix)
  ultimately show ?thesis using es by blast
qed

theorem loop_bytes_decode_witness:
  "\<exists>s' w' cmds. run_client ref_sync (codec_runtime sample_deps) (\<lambda>h w. (True, w)) sample_timeouts [] (0, 0, 0) ()
       [(Frame (Some (Inr (S_Info ref_info))) 1, 1), (Command_received (Publish ''a'' ''hi'') 2, 2), (Frame None 3, 3)]
       ref_world0 = Value (False, s', w') \<and>
     frames (client_decode sample_deps) (writer s') cmds [] \<and> connect_first cmds"
proof -
  let ?arms = "[(Frame (Some (Inr (S_Info ref_info))) 1, 1), (Command_received (Publish ''a'' ''hi'') 2, 2),
    (Frame None 3, 3)] :: ((nat, instant) arm \<times> instant) list"
  obtain s' w' where r: "run_client ref_sync (codec_runtime sample_deps) (\<lambda>h w. (True, w)) sample_timeouts [] (0, 0, 0) ()
       ?arms ref_world0 = Value (False, s', w')"
    by (simp add: run_client_def loop_eval)
  have c: "\<forall>(a, _) \<in> set ?arms. \<forall>c now. a = Command_received c now \<longrightarrow> wf_command c"
    by (simp add: token_def utf8_valid_ascii no_crlf_def CR_def byte_val_def)
  have d: "memchr_ok sample_deps" "bytes_ok sample_deps" by (simp_all add: sample_deps_def)
  have rt: "writer_send (codec_runtime sample_deps) = (\<lambda>c net. fst (encode sample_deps c net))"
    by (simp add: codec_runtime_def)
  from loop_bytes_decode [OF d wf_hello rt c r] r show ?thesis by blast
qed

subsection \<open>What the loop reads\<close>

text \<open>C4: Messages arrive end to end: when the bytes of a list of well-formed server commands, none of them
  an \<open>HMSG\<close>, are received, in any pieces, by a reader that decodes after every read, the reader never
  fails or panics and ends with an empty buffer, and feeding what it decoded to an established
  connection whose subscribers have room appends to every subscriber's channel exactly the messages
  with its subscription id, in the order sent.\<close>

theorem messages_end_to_end:
  assumes "memchr_ok d" "bytes_ok d" "mpsc_ok io v" "conn_state b = InfoReceived r"
    and "\<forall>c \<in> set cs. wf_server js d c" "\<forall>h. S_HMsg h \<notin> set cs"
    and "concat chunks = concat (map (server_wire js d) cs)"
    and "fits v w (delivered r (map (\<lambda>c. (c, now)) cs))"
  shows "\<exists>fs b' w'. framed_read (server_decode d) [] chunks = Some (fs, Waits []) \<and>
    server_inputs io b (map (\<lambda>c. (c, now)) fs) w = Value (b', w') \<and>
    (\<forall>tx. queue_of v w' tx = queue_of v w tx @
      map message_of_msg [m. S_Msg m \<leftarrow> cs, sid2subscriber r (msg_sid m) = Some tx])"
proof -
  have "\<forall>c \<in> set cs. \<forall>k. \<not> server_fatal c k"
  proof (intro ballI allI)
    fix c k assume "c \<in> set cs"
    with assms(6) show "\<not> server_fatal c k" by (cases c) auto
  qed
  then have "framed_read (server_decode d) [] chunks = Some (cs, Waits [])"
    using server_codec.framed_read_stream [OF assms(1,2,5,7)] by (simp only: read_result_safe)
  moreover have "no_hmsg (map (\<lambda>c. (c, now)) cs)" using assms(6) by (auto simp: no_hmsg_def)
  from server_inputs_delivered [OF assms(3,4) this, of w] assms(8)
  have "\<exists>b' w'. server_inputs io b (map (\<lambda>c. (c, now)) cs) w = Value (b', w') \<and>
    (\<forall>tx. queue_of v w' tx = queue_of v w tx @
      map message_of_msg [m. S_Msg m \<leftarrow> cs, sid2subscriber r (msg_sid m) = Some tx])"
    by (auto simp: delivered_msgs)
  ultimately show ?thesis by blast
qed

theorem messages_end_to_end_witness:
  "\<exists>fs b' w'. framed_read (server_decode ref_deps) []
       [''+OK'' @ CRLF @ take 5 (msg_wire hello_msg), drop 5 (msg_wire hello_msg)] = Some (fs, Waits []) \<and>
     server_inputs ref_sync sample_binding (map (\<lambda>c. (c, 3)) fs) sample_world = Value (b', w') \<and>
     queue_of ref_view w' 0 = [message_of_msg hello_msg]"
proof -
  let ?w = "msg_wire hello_msg" and ?cs = "[S_Ok, S_Msg hello_msg]"
  have wf: "wf_msg hello_msg" "length (msg_meta hello_msg) + 6 \<le> BUFSIZE_LIMIT"
    by (simp_all add: hello_msg_def wf_msg_def token_def utf8_valid_ascii no_crlf_def CR_def byte_val_def
        msg_meta_def show_usize_def show_nat.simps BUFSIZE_LIMIT_def)
  have c: "concat [''+OK'' @ CRLF @ take 5 ?w, drop 5 ?w] = concat (map (server_wire (\<lambda>_. []) ref_deps) ?cs)"
    by simp
  have q: "queue_of ref_view sample_world tx = []" for tx by (simp add: ref_view_def sample_world_def)
  have s: "conn_state sample_binding = InfoReceived sample_info_received" by (simp add: sample_binding_def)
  have "fits ref_view sample_world (delivered sample_info_received (map (\<lambda>c. (c, 3)) ?cs))"
    by (auto simp: fits_def q sample_info_received_def hello_msg_def ref_view_def sample_world_def)
  from messages_end_to_end [OF _ _ mpsc_ok_ref s _ _ c this] wf show ?thesis
    by (auto simp: q sample_info_received_def hello_msg_def)
qed

text \<open>C24: Message headers cannot be received: a complete and well-formed \<open>HMSG\<close> frame for a live
  subscription is decoded, and the loop panics on it, since it delivers the message with
  \<open>blocking_send\<close> inside the asynchronous loop, where that call is documented to panic.\<close>

theorem hmsg_stops_the_loop:
  assumes "memchr_ok d" "bytes_ok d" "wf_hmsg h kvs" "length (hmsg_meta h) + 7 \<le> BUFSIZE_LIMIT"
    and "async_context io" "conn_state (binding s) = InfoReceived r"
    and "sid2subscriber r (hmsg_sid h) = Some tx"
  shows "\<exists>c. server_decode d (hmsg_wire h kvs @ rest) = Value (Inr (Some c), rest) \<and>
    run_loop io rt s ((Frame (Some (Inr c)) t, now) # arms) w = Panic"
proof -
  obtain r' where r': "conn_state (binding (loop_head rt s)) = InfoReceived r'"
    "sid2subscriber r' = sid2subscriber r"
    using loop_head_keeps [OF assms(6)] by metis
  have "handle_server_input io (binding (loop_head rt s)) (S_HMsg h) t w = Panic"
    using r' assms(5,7) by (simp add: handle_server_input_def change_state_def async_context_def run_bind_eq_Panic)
  with server_hmsg_wire [OF assms(1-4), of rest] show ?thesis by auto
qed

theorem hmsg_stops_the_loop_witness:
  "run_loop ref_sync ref_runtime (ref_start\<lparr>binding := sample_binding\<rparr>)
     [(Frame (Some (Inr (S_HMsg sample_hmsg))) 2, 2)] sample_world = Panic"
proof -
  have s: "conn_state (binding (ref_start\<lparr>binding := sample_binding\<rparr>)) = InfoReceived sample_info_received"
    by (simp add: sample_binding_def)
  have "length (hmsg_meta sample_hmsg) + 7 \<le> BUFSIZE_LIMIT" using sample_hmsg_sizes by simp
  from hmsg_stops_the_loop [OF _ _ sample_hmsg_wf this async_context_ref s, of ref_deps 0 "[]" ref_runtime 2 2 "[]" sample_world]
    server_hmsg_wire [OF _ _ sample_hmsg_wf this, of ref_deps "[]"]
  show ?thesis by (simp add: sample_info_received_def sample_hmsg_def)
qed

text \<open>C22: Reading ends: for every sequence of reads from the network, whatever the bytes are, a reader that
  decodes after each of them until a call returns no frame gets to an end with either codec, the
  loop of calls never running for ever: it waits with what is left of the stream, or a call behind
  its frames has returned an error or panicked. The frames it has and the bytes it
  keeps are together no more than the bytes received.\<close>

theorem reading_ends:
  assumes "memchr_ok d" "bytes_ok d"
  shows "(\<exists>fs out. framed_read (server_decode d) [] chunks = Some (fs, out) \<and>
      ended (server_decode d) (concat chunks) fs out \<and>
      length fs + length (left_bytes out) \<le> length (concat chunks)) \<and>
    (\<exists>fs out. framed_read (client_decode d) [] chunks = Some (fs, out) \<and>
      ended (client_decode d) (concat chunks) fs out \<and>
      length fs + length (left_bytes out) \<le> length (concat chunks))"
  using server_dec.framed_read_total [OF assms] client_dec.framed_read_total [OF assms] by blast

theorem reading_ends_witness:
  "framed_read (server_decode ref_deps) [] [''PI'', ''NG'' @ CRLF] = Some ([S_Ping], Waits []) \<and>
   ended (server_decode ref_deps) (''PING'' @ CRLF) [S_Ping] (Waits [])"
proof -
  have "framed_read (server_decode ref_deps) [] [''PI'', ''NG'' @ CRLF] = Some ([S_Ping], Waits [])"
    using server_codec.framed_read_stream [of ref_deps "[S_Ping]" "\<lambda>_. []" "[''PI'', ''NG'' @ CRLF]"]
    by (simp add: read_result_safe)
  with reading_ends [of ref_deps "[''PI'', ''NG'' @ CRLF]"] show ?thesis by auto
qed

subsection \<open>Headers\<close>




text \<open>C34: A header whose value contains a colon, such as a URL or a time, is refused: behind any plain
  headers the block is answered \<open>NoColon\<close>, whatever follows, although the encoder writes such values.\<close>

theorem header_with_colon_is_refused:
  assumes "memchr_ok d" "\<forall>(k, v) \<in> set kvs. plain_header k v" "COLON \<in> set v"
    and "no_crlf (header_line (k, v))" "\<forall>kv \<in> set kvs'. no_crlf (header_line kv)"
  shows "parse_headers d (header_block (kvs @ (k, v) # kvs')) (length (header_block (kvs @ (k, v) # kvs'))) = Inl NoColon"
proof (rule parse_headers_refused [OF assms(1,2) _ assms(4,5)])
  obtain a b where "v = a @ COLON # b" using split_list [OF assms(3)] by blast
  then show "parse_header d (header_line (k, v)) = Inl NoColon"
    unfolding parse_header_NoColon [OF assms(1)] by (simp add: header_line_def)
qed

theorem header_with_colon_is_refused_witness:
  "parse_headers ref_deps (header_block [(''Url'', ''http://x'')]) (length (header_block [(''Url'', ''http://x'')])) =
     Inl NoColon"
  using header_with_colon_is_refused [of ref_deps "[]" "''http://x''" "''Url''" "[]"]
  by (simp add: header_line_def no_crlf_def CR_def)

subsection \<open>Strings\<close>

text \<open>C31: Every string of a command either decoder returns is valid UTF-8, whatever the bytes of the stream
  were. For messages, subscriptions, publications, headers and errors the
  conversions to \<open>String\<close> check it field by field; for the strings of \<open>INFO\<close> and \<open>CONNECT\<close>, all of them included, it
  rests on serde_json, whose values are Rust strings (\<open>json_strings_ok\<close>).\<close>

theorem frames_are_utf8:
  assumes "bytes_ok d" "json_strings_ok d"
  shows "(server_decode d src = Value (Inr (Some c), rest) \<longrightarrow> utf8_server c) \<and>
    (client_decode d src' = Value (Inr (Some c'), rest') \<longrightarrow> utf8_client c')"
  using server_frames_are_utf8 [OF assms] client_frames_are_utf8 [OF assms] by blast

theorem frames_are_utf8_witness: "utf8_server (S_Msg sample_msg) \<and> utf8_client (C_Publish sample_publish)"
  using frames_are_utf8 [of ref_deps "msg_wire sample_msg @ []" "S_Msg sample_msg" "[]"
      "client_wire ref_deps (C_Publish sample_publish) @ []" "C_Publish sample_publish" "[]"]
    sample_msg_decode [of "[]"] client_round_trip_lemma [OF _ _ wf_samples(1), of "[]"] json_strings_ok_ref
  by simp

end
